theory Spec2Isabelle
  imports Complex_Main
begin

section \<open>Data model of \<^verbatim>\<open>src/lib/GridItem.svelte\<close>\<close>

text \<open>
  A grid item is the object each component registers in \<^verbatim>\<open>$gridParams.items\<close>.
  Its fields are those of \<^verbatim>\<open>LayoutItem\<close>; they carry the prefix \<open>item_\<close> here
  because \<open>id\<close>, \<open>min\<close> and \<open>max\<close> are constants of HOL and one-letter field names
  would capture the variables of every statement. Grid units are JavaScript numbers that
  hold integers, modelled as \<open>int\<close>. The \<^verbatim>\<open>invalidate\<close> callback only copies the
  fields back to the component's props and fires events; it has no effect on the item
  objects and is left out, as are \<^verbatim>\<open>dispatch\<close> and \<^verbatim>\<open>$gridParams.updateGrid()\<close>, the
  notification and the re-layout trigger of the grid, which do not touch the items.
\<close>

record Size =
  size_w :: int
  size_h :: int

record ItemSize =
  width :: int
  height :: int

record LayoutItem =
  item_id :: string
  item_x :: int
  item_y :: int
  item_w :: int
  item_h :: int
  item_min :: Size
  item_max :: "Size option"
  movable :: bool
  resizable :: bool

text \<open>The collision mode of the grid: \<^verbatim>\<open>'none' | 'push' | 'compress'\<close>.\<close>

datatype Collision = CollisionNone | Push | Compress

text \<open>The argument \<^verbatim>\<open>{ x?, y?, w?, h? }\<close> of the push handler.\<close>

record NewAttributes =
  new_x :: "int option"
  new_y :: "int option"
  new_w :: "int option"
  new_h :: "int option"

text \<open>
  The state one component works on. \<open>items\<close> are the objects of
  \<^verbatim>\<open>$gridParams.items\<close> in the order of \<^verbatim>\<open>Object.values\<close>; the objects are shared and
  mutated in place by the source, so an array of items is a list of references, and a
  reference is an index into \<open>items\<close>. \<open>item\<close> is the reference of the component's own
  object (registered on mount, before any pointer event can reach the component), and
  \<open>previewItem\<close> is the transient copy, replaced by a fresh object at each assignment.
\<close>

record GridItem =
  items :: "LayoutItem list"
  itemSize :: "ItemSize option"
  collision :: Collision
  maxCols :: "int option"
  maxRows :: "int option"
  item :: nat
  previewItem :: LayoutItem
  resizeDirection :: string
  originalGridRight :: int
  originalGridBottom :: int

text \<open>The only exception of the file: \<^verbatim>\<open>throw new Error('Grid is not mounted yet')\<close>.\<close>

datatype error = GridNotMounted

text \<open>
  What one \<^verbatim>\<open>pointermove\<close> event amounts to once the pixel arithmetic and the snap
  helpers of \<^verbatim>\<open>utils/item\<close> (not part of the sources at hand) have run: for a move the
  cell \<^verbatim>\<open>snapOnMove(left, top, previewItem, ...)\<close>; for a resize the size
  \<^verbatim>\<open>snapOnResize(width, height, previewItem, ...)\<close>, the cell
  \<^verbatim>\<open>snapOnMove(left, top, tempItem, ...)\<close> of step 2 and the cell
  \<^verbatim>\<open>snapOnMove(left, top, previewItem, ...)\<close> that the push and compress resize paths
  compute again.
\<close>

record ResizeSample =
  snappedW :: int
  snappedH :: int
  snappedPosition :: "int \<times> int"
  previewPosition :: "int \<times> int"

section \<open>The helpers of \<^verbatim>\<open>utils/grid\<close>\<close>

text \<open>
  Modelled from the spec: \<^verbatim>\<open>overlaps(a, b)\<close> of the Collision Detector (section 4.2);
  the module \<^verbatim>\<open>utils/grid\<close> is imported by the component but is not among the sources.
  Half-open rectangles: sharing an edge is no overlap.
\<close>

definition overlaps :: "LayoutItem \<Rightarrow> LayoutItem \<Rightarrow> bool" where
  "overlaps a b \<longleftrightarrow>
     item_x a < item_x b + item_w b \<and> item_x b < item_x a + item_w a \<and>
     item_y a < item_y b + item_h b \<and> item_y b < item_y a + item_h a"

text \<open>
  Modelled from the spec: the test both \<^verbatim>\<open>hasCollisions\<close> and \<^verbatim>\<open>getCollisions\<close> apply to
  one item of the list: it has a different id and overlaps the candidate.
\<close>

definition collides :: "LayoutItem \<Rightarrow> LayoutItem \<Rightarrow> bool" where
  "collides candidate other \<longleftrightarrow> item_id other \<noteq> item_id candidate \<and> overlaps candidate other"

text \<open>
  Modelled from the spec: \<^verbatim>\<open>hasCollisions(candidate, items)\<close>, true iff any item of
  \<open>items\<close> with a different id overlaps the candidate. It only reads, so it is given the
  values the references hold at the time of the call.
\<close>

definition hasCollisions :: "LayoutItem \<Rightarrow> LayoutItem list \<Rightarrow> bool" where
  "hasCollisions candidate its = list_ex (collides candidate) its"

text \<open>
  Modelled from the spec: \<^verbatim>\<open>getCollisions(candidate, items)\<close>, all items overlapping the
  candidate (same id excluded) in the order they occur in \<open>items\<close>. The array it returns
  holds the same objects, so the model filters the references, reading each through the
  store \<open>s\<close>.
\<close>

definition getCollisions :: "LayoutItem list \<Rightarrow> LayoutItem \<Rightarrow> nat list \<Rightarrow> nat list" where
  "getCollisions s candidate refs = filter (\<lambda>r. collides candidate (s ! r)) refs"

text \<open>
  The far edges of the occupied area: no item reaches the column \<open>extentCols\<close> or the
  row \<open>extentRows\<close>.
\<close>

definition extentCols :: "LayoutItem list \<Rightarrow> int" where
  "extentCols its = fold max (map (\<lambda>i. item_x i + item_w i) its) 0"

definition extentRows :: "LayoutItem list \<Rightarrow> int" where
  "extentRows its = fold max (map (\<lambda>i. item_y i + item_h i) its) 0"

text \<open>
  Modelled from the spec: the Free-Slot Search (section 4.3),
  \<^verbatim>\<open>getAvailablePosition(item, items, maxCols, maxRows)\<close>: the first cell, rows in
  increasing order and columns in increasing order within a row, where the item (same
  \<open>w\<close>, \<open>h\<close>) collides with nothing in \<open>items\<close> and satisfies \<open>x + w \<le> maxCols\<close> and
  \<open>y + h \<le> maxRows\<close> where these are given; none if there is no such cell. In a
  direction without bound the scan ends at the far edge of the occupied area: a cell
  there is free, so the first free cell of the unbounded scan lies in this range.
\<close>

definition getAvailablePosition ::
  "LayoutItem \<Rightarrow> LayoutItem list \<Rightarrow> int option \<Rightarrow> int option \<Rightarrow> (int \<times> int) option" where
  "getAvailablePosition currentItem its maxCols' maxRows' =
     (let lastCol = (case maxCols' of Some c \<Rightarrow> c - item_w currentItem | None \<Rightarrow> extentCols its);
          lastRow = (case maxRows' of Some r \<Rightarrow> r - item_h currentItem | None \<Rightarrow> extentRows its)
      in List.find (\<lambda>(x, y). \<not> hasCollisions (currentItem\<lparr>item_x := x, item_y := y\<rparr>) its)
           (concat (map (\<lambda>y. map (\<lambda>x. (x, y)) [0..lastCol]) [0..lastRow])))"

text \<open>
  The Free-Slot Search in the words of the spec: a cell is a valid slot for an item when
  placing the item there (same \<open>w\<close>, \<open>h\<close>) produces no collision against \<open>items\<close> and
  satisfies \<open>x + w \<le> maxCols\<close> and \<open>y + h \<le> maxRows\<close> where these are given; cells have
  \<open>x, y \<ge> 0\<close>.
\<close>

definition validSlot ::
  "LayoutItem \<Rightarrow> LayoutItem list \<Rightarrow> int option \<Rightarrow> int option \<Rightarrow> int \<Rightarrow> int \<Rightarrow> bool" where
  "validSlot it its mc mr x y \<longleftrightarrow>
     0 \<le> x \<and> 0 \<le> y \<and>
     \<not> hasCollisions (it\<lparr>item_x := x, item_y := y\<rparr>) its \<and>
     (case mc of Some c \<Rightarrow> x + item_w it \<le> c | None \<Rightarrow> True) \<and>
     (case mr of Some r \<Rightarrow> y + item_h it \<le> r | None \<Rightarrow> True)"

text \<open>The first free column of one row of the scan, columns \<open>0\<close> to \<open>lastCol\<close>.\<close>

definition slotInRow :: "LayoutItem \<Rightarrow> LayoutItem list \<Rightarrow> int \<Rightarrow> int \<Rightarrow> int option" where
  "slotInRow it its lastCol y =
     List.find (\<lambda>x. \<not> hasCollisions (it\<lparr>item_x := x, item_y := y\<rparr>) its) [0..lastCol]"

section \<open>Applying the preview\<close>

text \<open>\<^verbatim>\<open>Object.values($gridParams.items)\<close>: a reference to every object of the store.\<close>

definition gridItems :: "LayoutItem list \<Rightarrow> nat list" where
  "gridItems s = [0..<length s]"

text \<open>
  \<^verbatim>\<open>applyPreview\<close> (lines 156-162): the four coordinates of the preview are assigned to
  the component's own object.
\<close>

definition applyPreview :: "GridItem \<Rightarrow> GridItem" where
  "applyPreview st =
     st\<lparr>items := (items st)[item st := (items st ! item st)
        \<lparr>item_x := item_x (previewItem st), item_y := item_y (previewItem st),
         item_w := item_w (previewItem st), item_h := item_h (previewItem st)\<rparr>]\<rparr>"

text \<open>\<^verbatim>\<open>endInteraction\<close> (lines 181-188), the commit at \<^verbatim>\<open>pointerup\<close>.\<close>

definition endInteraction :: "GridItem \<Rightarrow> GridItem" where
  "endInteraction st = applyPreview st"

section \<open>Push mode\<close>

text \<open>The object spread \<^verbatim>\<open>{ ...previewItem, ...newAttributes }\<close>.\<close>

definition spread :: "LayoutItem \<Rightarrow> NewAttributes \<Rightarrow> LayoutItem" where
  "spread it a =
     it\<lparr>item_x := (case new_x a of Some v \<Rightarrow> v | None \<Rightarrow> item_x it),
        item_y := (case new_y a of Some v \<Rightarrow> v | None \<Rightarrow> item_y it),
        item_w := (case new_w a of Some v \<Rightarrow> v | None \<Rightarrow> item_w it),
        item_h := (case new_h a of Some v \<Rightarrow> v | None \<Rightarrow> item_h it)\<rparr>"

text \<open>
  \<^verbatim>\<open>updateCollItemPositionWithPush\<close> (lines 252-266): \<open>collItem\<close> is a reference, \<open>its\<close>
  the values of the temporary array at the time of the call, \<open>s\<close> the store. Only under
  \<^verbatim>\<open>if (newPosition)\<close> are \<open>x\<close> and \<open>y\<close> assigned.
\<close>

definition updateCollItemPositionWithPush ::
  "int option \<Rightarrow> int option \<Rightarrow> nat \<Rightarrow> LayoutItem list \<Rightarrow> LayoutItem list \<Rightarrow> LayoutItem list" where
  "updateCollItemPositionWithPush maxCols' maxRows' collItem its s =
     (case getAvailablePosition (s ! collItem) its maxCols' maxRows' of
        Some (x, y) \<Rightarrow> s[collItem := (s ! collItem)\<lparr>item_x := x, item_y := y\<rparr>]
      | None \<Rightarrow> s)"

text \<open>
  The temporary array built in the body of \<^verbatim>\<open>collItems.forEach\<close> (lines 279-283): the
  references of \<open>gridItems\<close> filtered by the id of the colliding item, then by the id of
  the preview, read through the store as it is now, and the candidate appended.
\<close>

definition tempItems :: "LayoutItem \<Rightarrow> LayoutItem \<Rightarrow> nat \<Rightarrow> LayoutItem list \<Rightarrow> LayoutItem list" where
  "tempItems pv candidate collItem s =
     (let itemsExceptCollItem = filter (\<lambda>r. item_id (s ! r) \<noteq> item_id (s ! collItem)) (gridItems s)
      in map ((!) s) (filter (\<lambda>r. item_id (s ! r) \<noteq> item_id pv) itemsExceptCollItem) @ [candidate])"

text \<open>One round of \<^verbatim>\<open>collItems.forEach\<close>.\<close>

definition pushCollItem ::
  "int option \<Rightarrow> int option \<Rightarrow> LayoutItem \<Rightarrow> LayoutItem \<Rightarrow> nat \<Rightarrow> LayoutItem list \<Rightarrow> LayoutItem list" where
  "pushCollItem maxCols' maxRows' pv candidate collItem s =
     updateCollItemPositionWithPush maxCols' maxRows' collItem (tempItems pv candidate collItem s) s"

text \<open>
  The collision list of the push handler (lines 274-276): the items other than the
  preview's own (by id) that collide with the candidate, in the order of the store.
\<close>

definition pushCollItems :: "LayoutItem list \<Rightarrow> LayoutItem \<Rightarrow> LayoutItem \<Rightarrow> nat list" where
  "pushCollItems s pv candidate =
     (let itemsExceptPreview = filter (\<lambda>r. item_id (s ! r) \<noteq> item_id pv) (gridItems s)
      in getCollisions s candidate itemsExceptPreview)"

text \<open>
  \<^verbatim>\<open>handleCollisionsForPreviewItemWithPush\<close> (lines 268-290). The collision list is
  computed once, before the loop; the loop threads the store; the preview is replaced
  and applied at the end.
\<close>

definition handleCollisionsForPreviewItemWithPush :: "GridItem \<Rightarrow> NewAttributes \<Rightarrow> GridItem" where
  "handleCollisionsForPreviewItemWithPush st newAttributes =
     (let s = items st;
          pv = previewItem st;
          candidate = spread pv newAttributes;
          collItems = pushCollItems s pv candidate;
          s' = fold (pushCollItem (maxCols st) (maxRows st) pv candidate) collItems s
      in applyPreview (st\<lparr>items := s', previewItem := candidate\<rparr>))"

definition movePreviewWithCollisionsWithPush :: "GridItem \<Rightarrow> int \<Rightarrow> int \<Rightarrow> GridItem" where
  "movePreviewWithCollisionsWithPush st x y =
     handleCollisionsForPreviewItemWithPush st
       \<lparr>new_x = Some x, new_y = Some y, new_w = None, new_h = None\<rparr>"

definition resizePreviewWithCollisionsWithPush :: "GridItem \<Rightarrow> int \<times> int \<Rightarrow> int \<Rightarrow> int \<Rightarrow> GridItem" where
  "resizePreviewWithCollisionsWithPush st pos w h =
     handleCollisionsForPreviewItemWithPush st
       \<lparr>new_x = Some (fst pos), new_y = Some (snd pos), new_w = Some w, new_h = Some h\<rparr>"

section \<open>Compress mode\<close>

text \<open>
  The loop that both branches of \<^verbatim>\<open>compressItems\<close> run (lines 622-627 and 635-640):
  \<^verbatim>\<open>while (newY >= 0) { if (hasCollisions({...currentItem, y: newY}, accItem)) break; newY--; }\<close>.
  The result is the value of \<open>newY\<close> after the loop.
\<close>

function scanRows :: "LayoutItem \<Rightarrow> LayoutItem list \<Rightarrow> int \<Rightarrow> int" where
  "scanRows currentItem acc newY =
     (if newY \<ge> 0 then
        (if hasCollisions (currentItem\<lparr>item_y := newY\<rparr>) acc then newY
         else scanRows currentItem acc (newY - 1))
      else newY)"
  by pat_completeness auto
termination
  by (relation "measure (\<lambda>(c, a, n). nat (n + 1))") auto

declare scanRows.simps [simp del]

text \<open>
  The callback of \<^verbatim>\<open>sortedItems.reduce\<close> in \<^verbatim>\<open>compressItems\<close> (lines 612-649). The
  accumulator starts as \<^verbatim>\<open>[previewItem]\<close> and receives references, so it is the preview
  followed by the references in \<open>accItem\<close>, read through the store.
\<close>

fun compressStep :: "LayoutItem \<Rightarrow> nat \<Rightarrow> LayoutItem list \<times> nat list \<Rightarrow> LayoutItem list \<times> nat list" where
  "compressStep pv r (s, accItem) =
     (let currentItem = s ! r in
      if item_id currentItem = item_id pv then (s, accItem)
      else if item_y pv < item_y currentItem + item_h currentItem then
        (let maxY = (if item_y currentItem \<ge> item_y pv
                     then item_y currentItem + item_h pv + 1
                     else item_y pv + item_h currentItem + 1);
             newY = scanRows currentItem (pv # map ((!) s) accItem) maxY
         in (s[r := currentItem\<lparr>item_y := newY + 1\<rparr>], accItem @ [r]))
      else
        (let newY = scanRows currentItem (pv # map ((!) s) accItem) (item_y currentItem)
         in ((if newY < item_y currentItem \<and> newY > 0
              then s[r := currentItem\<lparr>item_y := newY + 1\<rparr>] else s), accItem @ [r])))"

text \<open>
  \<^verbatim>\<open>compressItems\<close> (lines 608-652). \<^verbatim>\<open>[...gridItems].sort((a, b) => a.y - b.y)\<close> is a
  stable sort of the references by ascending \<open>y\<close>, as \<open>sort_key\<close> is.
\<close>

definition compressItems :: "GridItem \<Rightarrow> GridItem" where
  "compressItems st =
     (let s = items st;
          sortedItems = sort_key (\<lambda>r. item_y (s ! r)) (gridItems s)
      in st\<lparr>items := fst (fold (compressStep (previewItem st)) sortedItems (s, []))\<rparr>)"

text \<open>
  The inner \<^verbatim>\<open>sortedItems.forEach\<close> of the move-time resolution (lines 310-318): a
  colliding item moves up by the height of the preview when that creates no collision
  and does not leave the grid.
\<close>

definition shiftItemUp :: "LayoutItem \<Rightarrow> nat list \<Rightarrow> nat \<Rightarrow> LayoutItem list \<Rightarrow> LayoutItem list" where
  "shiftItemUp pv itemsExceptPreview r s =
     (let it = s ! r in
      if \<not> hasCollisions (it\<lparr>item_y := item_y it - item_h pv\<rparr>) (map ((!) s) itemsExceptPreview)
         \<and> item_y it - item_h pv \<ge> 0
      then s[r := it\<lparr>item_y := item_y it - item_h pv\<rparr>] else s)"

text \<open>
  The below-centre test of line 307, \<^verbatim>\<open>y + previewItem.h / 2 >= sortItem.y + sortItem.h / 2\<close>.
  Halves of integers are exact in JavaScript's numbers, so the test is the one on
  rationals.
\<close>

definition belowCentre :: "int \<Rightarrow> LayoutItem \<Rightarrow> LayoutItem \<Rightarrow> bool" where
  "belowCentre y pv sortItem \<longleftrightarrow>
     (of_int y + of_int (item_h pv) / 2 :: rat) \<ge> of_int (item_y sortItem) + of_int (item_h sortItem) / 2"

text \<open>
  The callback of the outer \<^verbatim>\<open>sortedItems.forEach\<close> (lines 305-321), on the variables
  \<open>moved\<close>, \<open>newY\<close> and the store. Its \<^verbatim>\<open>return false\<close> ends the callback, not the
  \<^verbatim>\<open>forEach\<close>: the remaining items are visited too.
\<close>

fun visitSortItem ::
  "int \<Rightarrow> LayoutItem \<Rightarrow> nat list \<Rightarrow> nat list \<Rightarrow> nat \<Rightarrow> bool \<times> int \<times> LayoutItem list
     \<Rightarrow> bool \<times> int \<times> LayoutItem list" where
  "visitSortItem y pv itemsExceptPreview sortedItems r (moved, newY, s) =
     (if belowCentre y pv (s ! r)
      then (True, item_y (s ! r) + item_h (s ! r),
            fold (shiftItemUp pv itemsExceptPreview) sortedItems s)
      else (moved, newY, s))"

text \<open>
  The \<^verbatim>\<open>while (newY >= 0)\<close> loop of \<^verbatim>\<open>movePreviewWithCollisionsWithCompress\<close>
  (lines 300-328); the result is \<open>newY\<close> and the store after the loop. The comparator
  \<^verbatim>\<open>(a, b) => b.y - a.y\<close> sorts by descending \<open>y\<close>, stably.
\<close>

function probeRows :: "LayoutItem list \<Rightarrow> LayoutItem \<Rightarrow> int \<Rightarrow> int \<Rightarrow> int \<Rightarrow> int \<times> LayoutItem list" where
  "probeRows s pv x y newY =
     (if newY \<ge> 0 then
        (let collItems = getCollisions s (pv\<lparr>item_x := x, item_y := newY\<rparr>) (gridItems s) in
         if collItems \<noteq> [] then
           (let itemsExceptPreview = filter (\<lambda>r. item_id (s ! r) \<noteq> item_id pv) (gridItems s);
                sortedItems = sort_key (\<lambda>r. - item_y (s ! r)) collItems;
                (moved, newY', s') =
                   fold (visitSortItem y pv itemsExceptPreview sortedItems) sortedItems (False, newY, s)
            in (if \<not> moved then item_y pv else newY', s'))
         else probeRows s pv x y (newY - 1))
      else (newY, s))"
  by pat_completeness auto
termination
  by (relation "measure (\<lambda>(s, pv, x, y, n). nat (n + 1))") auto

declare probeRows.simps [simp del]

text \<open>\<^verbatim>\<open>movePreviewWithCollisionsWithCompress\<close> (lines 296-338).\<close>

definition movePreviewWithCollisionsWithCompress :: "GridItem \<Rightarrow> int \<Rightarrow> int \<Rightarrow> GridItem" where
  "movePreviewWithCollisionsWithCompress st x y =
     (let pv = previewItem st;
          (probed, s') = probeRows (items st) pv x y y;
          newY = (if probed < 0 \<or> y = 0 then 0 else probed);
          positionChanged = (x \<noteq> item_x pv \<or> newY \<noteq> item_y pv);
          st' = st\<lparr>items := s', previewItem := pv\<lparr>item_x := x, item_y := newY\<rparr>\<rparr>
      in if positionChanged then applyPreview (compressItems st') else st')"

definition movePreviewWithCollisions :: "GridItem \<Rightarrow> int \<Rightarrow> int \<Rightarrow> GridItem" where
  "movePreviewWithCollisions st x y =
     (if collision st = Compress then movePreviewWithCollisionsWithCompress st x y
      else movePreviewWithCollisionsWithPush st x y)"

text \<open>\<^verbatim>\<open>resizePreviewWithCollisionsWithCompress\<close> (lines 572-591).\<close>

definition resizePreviewWithCollisionsWithCompress :: "GridItem \<Rightarrow> int \<times> int \<Rightarrow> int \<Rightarrow> int \<Rightarrow> GridItem" where
  "resizePreviewWithCollisionsWithCompress st pos w h =
     (let pv = previewItem st; x = fst pos; y = snd pos;
          positionOrSizeChanged =
            (w \<noteq> item_w pv \<or> h \<noteq> item_h pv \<or> x \<noteq> item_x pv \<or> y \<noteq> item_y pv)
      in if positionOrSizeChanged then
           (let hGap = h - item_h pv;
                pv' = pv\<lparr>item_x := x, item_y := y, item_w := w, item_h := h\<rparr>;
                st1 = applyPreview (st\<lparr>previewItem := pv'\<rparr>);
                collItems = getCollisions (items st1) (pv'\<lparr>item_w := w, item_h := 9999\<rparr>)
                              (gridItems (items st1));
                s2 = fold (\<lambda>r s. s[r := (s ! r)\<lparr>item_y := item_y (s ! r) + hGap\<rparr>]) collItems (items st1)
            in compressItems (st1\<lparr>items := s2\<rparr>))
         else st)"

definition resizePreviewWithCollisions :: "GridItem \<Rightarrow> int \<times> int \<Rightarrow> int \<Rightarrow> int \<Rightarrow> GridItem" where
  "resizePreviewWithCollisions st pos w h =
     (if collision st = Compress then resizePreviewWithCollisionsWithCompress st pos w h
      else resizePreviewWithCollisionsWithPush st pos w h)"

section \<open>The pointer handlers\<close>

text \<open>
  \<^verbatim>\<open>move\<close> (lines 208-250), from the guard on \<^verbatim>\<open>itemSize\<close> to the update of the preview;
  \<open>snapped\<close> is the cell the event snaps to.
\<close>

definition move :: "GridItem \<Rightarrow> int \<times> int \<Rightarrow> error + GridItem" where
  "move st snapped =
     (case itemSize st of
        None \<Rightarrow> Inl GridNotMounted
      | Some _ \<Rightarrow>
         (let x = fst snapped; y = snd snapped in
          if collision st \<noteq> CollisionNone then Inr (movePreviewWithCollisions st x y)
          else if \<not> hasCollisions ((previewItem st)\<lparr>item_x := x, item_y := y\<rparr>)
                     (map ((!) (items st)) (gridItems (items st)))
          then Inr (st\<lparr>previewItem := (previewItem st)\<lparr>item_x := x, item_y := y\<rparr>\<rparr>)
          else Inr st))"

text \<open>
  Steps 2 and 3 of the snap logic of \<^verbatim>\<open>resize\<close> (lines 523-555): the position is taken
  from the snap only for a handle with \<open>w\<close> or \<open>n\<close>, the fixed edges are kept, and the
  size is clamped by \<open>min\<close> and \<open>max\<close>. The result is the candidate
  \<^verbatim>\<open>{ ...previewItem, x, y, w, h }\<close>. The props \<open>min\<close> and \<open>max\<close> of the component are
  those of its item (lines 112-113 keep them equal) and are read from the preview, a copy
  of the item.
\<close>

definition resizeCandidate :: "GridItem \<Rightarrow> ResizeSample \<Rightarrow> LayoutItem" where
  "resizeCandidate st ev =
     (let pv = previewItem st;
          west = (CHR ''w'' \<in> set (resizeDirection st));
          north = (CHR ''n'' \<in> set (resizeDirection st));
          x = (if west \<or> north then fst (snappedPosition ev) else item_x pv);
          y = (if west \<or> north then snd (snappedPosition ev) else item_y pv);
          w1 = (if west then max 1 (originalGridRight st - x) else snappedW ev);
          h1 = (if north then max 1 (originalGridBottom st - y) else snappedH ev);
          w2 = max w1 (size_w (item_min pv));
          h2 = max h1 (size_h (item_min pv));
          w = (case item_max pv of Some m \<Rightarrow> min w2 (size_w m) | None \<Rightarrow> w2);
          h = (case item_max pv of Some m \<Rightarrow> min h2 (size_h m) | None \<Rightarrow> h2)
      in pv\<lparr>item_x := x, item_y := y, item_w := w, item_h := h\<rparr>)"

text \<open>
  \<^verbatim>\<open>resize\<close> (lines 407-565): the guard on \<^verbatim>\<open>itemSize\<close>, then the update of the preview
  (lines 557-564) with the candidate of the snap logic.
\<close>

definition resize :: "GridItem \<Rightarrow> ResizeSample \<Rightarrow> error + GridItem" where
  "resize st ev =
     (case itemSize st of
        None \<Rightarrow> Inl GridNotMounted
      | Some _ \<Rightarrow>
         (let candidate = resizeCandidate st ev in
          if collision st \<noteq> CollisionNone
          then Inr (resizePreviewWithCollisions st (previewPosition ev)
                      (item_w candidate) (item_h candidate))
          else if \<not> hasCollisions candidate (map ((!) (items st)) (gridItems (items st)))
          then Inr (st\<lparr>previewItem := candidate\<rparr>)
          else Inr st))"

section \<open>Layout predicates\<close>

text \<open>Every pair of distinct objects of the store is free of overlap.\<close>

definition noOverlap :: "LayoutItem list \<Rightarrow> bool" where
  "noOverlap s \<longleftrightarrow> (\<forall>i < length s. \<forall>j < length s. i \<noteq> j \<longrightarrow> \<not> overlaps (s ! i) (s ! j))"

text \<open>The ids of the store are pairwise different, as the keys of \<^verbatim>\<open>$gridParams.items\<close> are.\<close>

definition distinctIds :: "LayoutItem list \<Rightarrow> bool" where
  "distinctIds s \<longleftrightarrow> distinct (map item_id s)"

text \<open>
  The component is registered: its own object is in the store and the preview carries
  its id.
\<close>

definition registered :: "GridItem \<Rightarrow> bool" where
  "registered st \<longleftrightarrow>
     item st < length (items st) \<and> item_id (items st ! item st) = item_id (previewItem st)"

text \<open>
  Every free-slot search of the push loop over the colliding items \<open>cs\<close> finds a slot,
  each search run on the store the earlier relocations have left.
\<close>

fun searchesSucceed ::
  "int option \<Rightarrow> int option \<Rightarrow> LayoutItem \<Rightarrow> LayoutItem \<Rightarrow> nat list \<Rightarrow> LayoutItem list \<Rightarrow> bool" where
  "searchesSucceed mc mr pv candidate [] s = True"
| "searchesSucceed mc mr pv candidate (c # cs) s =
     (getAvailablePosition (s ! c) (tempItems pv candidate c s) mc mr \<noteq> None \<and>
      searchesSucceed mc mr pv candidate cs (pushCollItem mc mr pv candidate c s))"

text \<open>
  The free-slot searches of one push step all find a slot: either the grid has neither
  a column nor a row bound, or the searches of the loop succeed one after the other.
\<close>

definition slotsFound :: "GridItem \<Rightarrow> NewAttributes \<Rightarrow> bool" where
  "slotsFound st newAttributes \<longleftrightarrow>
     (maxCols st = None \<and> maxRows st = None) \<or>
     searchesSucceed (maxCols st) (maxRows st) (previewItem st)
       (spread (previewItem st) newAttributes)
       (pushCollItems (items st) (previewItem st) (spread (previewItem st) newAttributes)) (items st)"

text \<open>
  A sequence of push steps, one for each sample of a move (\<open>x\<close>, \<open>y\<close>) or of a resize
  (\<open>x\<close>, \<open>y\<close>, \<open>w\<close>, \<open>h\<close>), and the sequences all of whose steps find their slots.
\<close>

fun pushSteps :: "GridItem \<Rightarrow> NewAttributes list \<Rightarrow> GridItem" where
  "pushSteps st [] = st"
| "pushSteps st (newAttributes # rest) =
     pushSteps (handleCollisionsForPreviewItemWithPush st newAttributes) rest"

fun allSlotsFound :: "GridItem \<Rightarrow> NewAttributes list \<Rightarrow> bool" where
  "allSlotsFound st [] = True"
| "allSlotsFound st (newAttributes # rest) =
     (slotsFound st newAttributes \<and>
      allSlotsFound (handleCollisionsForPreviewItemWithPush st newAttributes) rest)"

text \<open>
  The items other than the component's own are pairwise free of overlap: the invariant
  of the push loop, during which the component's own object still holds the old
  position.
\<close>

definition othersApart :: "LayoutItem list \<Rightarrow> nat \<Rightarrow> bool" where
  "othersApart s self \<longleftrightarrow>
     (\<forall>i<length s. \<forall>j<length s. i \<noteq> j \<and> i \<noteq> self \<and> j \<noteq> self \<longrightarrow> \<not> overlaps (s ! i) (s ! j))"

text \<open>Every item lies in a row \<open>y \<ge> 0\<close>.\<close>

definition rowsNonneg :: "LayoutItem list \<Rightarrow> bool" where
  "rowsNonneg s = list_all (\<lambda>i. 0 \<le> item_y i) s"

text \<open>Every item is at least one row high, as the data model requires (\<open>h \<ge> 1\<close>).\<close>

definition heightsPositive :: "LayoutItem list \<Rightarrow> bool" where
  "heightsPositive s = list_all (\<lambda>i. 1 \<le> item_h i) s"

section \<open>Push mode in the words of the spec\<close>

text \<open>
  Step 2 of the push strategy (section 4.5): the temporary item set of a colliding item
  is all items except the colliding item and except the moving item, plus the candidate.
  Items are told apart by identity, not by id.
\<close>

definition tempItemSet :: "LayoutItem list \<Rightarrow> nat \<Rightarrow> nat \<Rightarrow> LayoutItem \<Rightarrow> LayoutItem list" where
  "tempItemSet s collItem self candidate =
     map ((!) s) (filter (\<lambda>r. r \<noteq> collItem \<and> r \<noteq> self) [0..<length s]) @ [candidate]"

text \<open>
  Step 1: the collision list is \<^verbatim>\<open>getCollisions(candidate, items \ self)\<close>, in the order
  of the items.
\<close>

definition collisionList :: "LayoutItem list \<Rightarrow> nat \<Rightarrow> LayoutItem \<Rightarrow> nat list" where
  "collisionList s self candidate =
     filter (\<lambda>r. r \<noteq> self \<and> overlaps candidate (s ! r)) [0..<length s]"

text \<open>
  Step 3: the colliding items are relocated one after the other in the order of the
  collision list; each search runs over the temporary item set taken from the items as
  the earlier relocations have left them.
\<close>

fun relocateInOrder ::
  "int option \<Rightarrow> int option \<Rightarrow> nat \<Rightarrow> LayoutItem \<Rightarrow> nat list \<Rightarrow> LayoutItem list \<Rightarrow> LayoutItem list" where
  "relocateInOrder mc mr self candidate [] s = s"
| "relocateInOrder mc mr self candidate (c # cs) s =
     relocateInOrder mc mr self candidate cs
       (updateCollItemPositionWithPush mc mr c (tempItemSet s c self candidate) s)"

section \<open>Example layouts\<close>

text \<open>
  An item with the defaults of the component's props: \<open>min = {w: 1, h: 1}\<close>, no \<open>max\<close>,
  movable and resizable.
\<close>

definition mkItem :: "string \<Rightarrow> int \<Rightarrow> int \<Rightarrow> int \<Rightarrow> int \<Rightarrow> LayoutItem" where
  "mkItem i x y w h =
     \<lparr>item_id = i, item_x = x, item_y = y, item_w = w, item_h = h,
      item_min = \<lparr>size_w = 1, size_h = 1\<rparr>, item_max = None,
      movable = True, resizable = True\<rparr>"

text \<open>
  A mounted grid of 100 by 100 pixel cells whose first object belongs to the component
  at hand, with the preview a copy of it and the default resize handle.
\<close>

definition mounted :: "LayoutItem list \<Rightarrow> Collision \<Rightarrow> int option \<Rightarrow> int option \<Rightarrow> GridItem" where
  "mounted s c cols rows =
     \<lparr>items = s, itemSize = Some \<lparr>width = 100, height = 100\<rparr>, collision = c,
      maxCols = cols, maxRows = rows, item = 0, previewItem = s ! 0,
      resizeDirection = ''se'', originalGridRight = 0, originalGridBottom = 0\<rparr>"

text \<open>The same grid before it is mounted: \<open>itemSize\<close> is absent.\<close>

definition unmounted :: "LayoutItem list \<Rightarrow> Collision \<Rightarrow> GridItem" where
  "unmounted s c = (mounted s c None None)\<lparr>itemSize := None\<rparr>"

text \<open>The four coordinates of an item.\<close>

definition coords :: "LayoutItem \<Rightarrow> int \<times> int \<times> int \<times> int" where
  "coords i = (item_x i, item_y i, item_w i, item_h i)"

text \<open>The fields of an item that are not its position.\<close>

definition otherFields :: "LayoutItem \<Rightarrow> string \<times> int \<times> int \<times> Size \<times> Size option \<times> bool \<times> bool" where
  "otherFields i = (item_id i, item_w i, item_h i, item_min i, item_max i, movable i, resizable i)"

section \<open>Basic facts\<close>

lemma overlaps_sym: "overlaps a b = overlaps b a"
  by (auto simp: overlaps_def)


lemma map_nth_gridItems: "map ((!) s) (gridItems s) = s"
  by (simp add: gridItems_def map_nth)

lemma length_updateCollItemPositionWithPush:
  "length (updateCollItemPositionWithPush mc mr c its s) = length s"
  by (simp add: updateCollItemPositionWithPush_def split: option.splits)

lemma updateCollItemPositionWithPush_other:
  "r \<noteq> c \<Longrightarrow> updateCollItemPositionWithPush mc mr c its s ! r = s ! r"
  by (simp add: updateCollItemPositionWithPush_def split: option.splits)

lemma length_pushCollItem: "length (pushCollItem mc mr pv cand c s) = length s"
  by (simp add: pushCollItem_def length_updateCollItemPositionWithPush)

lemma pushCollItem_other: "r \<noteq> c \<Longrightarrow> pushCollItem mc mr pv cand c s ! r = s ! r"
  by (simp add: pushCollItem_def updateCollItemPositionWithPush_other)

lemma length_fold_pushCollItem:
  "length (fold (pushCollItem mc mr pv cand) cs s) = length s"
  by (induction cs arbitrary: s) (simp_all add: length_pushCollItem)

lemma fold_pushCollItem_other:
  "r \<notin> set cs \<Longrightarrow> fold (pushCollItem mc mr pv cand) cs s ! r = s ! r"
  by (induction cs arbitrary: s) (simp_all add: pushCollItem_other)

section \<open>The free-slot search finds the first valid slot\<close>

text \<open>
  The search of \<open>getAvailablePosition\<close> over its finite range returns the valid slot that
  comes first in row-major order among all valid slots of the grid, bounded or not, and
  returns none exactly when the grid has no valid slot.
\<close>

lemma fold_max_bounds:
  "(a::int) \<le> fold max xs a \<and> (\<forall>x\<in>set xs. x \<le> fold max xs a)"
proof (induction xs arbitrary: a)
  case Nil
  then show ?case by simp
next
  case (Cons x xs)
  from Cons.IH [of "max x a"] show ?case by auto
qed

lemma find_upto_Some:
  "List.find Q [a..b] = Some k \<longleftrightarrow> a \<le> k \<and> k \<le> b \<and> Q k \<and> (\<forall>j. a \<le> j \<and> j < k \<longrightarrow> \<not> Q j)"
proof
  assume "List.find Q [a..b] = Some k"
  then obtain i where i: "i < length [a..b]" "Q ([a..b] ! i)" "k = [a..b] ! i"
    and first: "\<forall>j<i. \<not> Q ([a..b] ! j)"
    by (auto simp: find_Some_iff)
  from i have k: "k = a + int i" "a \<le> k" "k \<le> b" by auto
  have "\<not> Q j" if "a \<le> j" "j < k" for j
  proof -
    from that k have "nat (j - a) < i" by auto
    with first have "\<not> Q ([a..b] ! nat (j - a))" by simp
    moreover have "[a..b] ! nat (j - a) = j" using that k by auto
    ultimately show ?thesis by simp
  qed
  with i k show "a \<le> k \<and> k \<le> b \<and> Q k \<and> (\<forall>j. a \<le> j \<and> j < k \<longrightarrow> \<not> Q j)" by auto
next
  assume h: "a \<le> k \<and> k \<le> b \<and> Q k \<and> (\<forall>j. a \<le> j \<and> j < k \<longrightarrow> \<not> Q j)"
  let ?i = "nat (k - a)"
  have "?i < length [a..b]" "[a..b] ! ?i = k" using h by auto
  moreover have "\<forall>j<?i. \<not> Q ([a..b] ! j)" using h by auto
  ultimately show "List.find Q [a..b] = Some k"
    using h unfolding find_Some_iff by (intro exI [of _ ?i]) auto
qed

lemma find_append_case:
  "List.find P (xs @ ys) = (case List.find P xs of None \<Rightarrow> List.find P ys | Some a \<Rightarrow> Some a)"
  by (induction xs) simp_all

lemma find_concat_map:
  "List.find P (concat (map f ys)) =
     (case List.find (\<lambda>y. List.find P (f y) \<noteq> None) ys of None \<Rightarrow> None | Some y \<Rightarrow> List.find P (f y))"
  by (induction ys) (auto simp: find_append_case split: option.splits)

lemma find_map_pair:
  "List.find (\<lambda>(x, y). Q x y) (map (\<lambda>x. (x, y)) xs) = map_option (\<lambda>x. (x, y)) (List.find (\<lambda>x. Q x y) xs)"
  by (induction xs) simp_all

lemma getAvailablePosition_rows:
  "getAvailablePosition it its mc mr =
     (let lastCol = (case mc of Some c \<Rightarrow> c - item_w it | None \<Rightarrow> extentCols its);
          lastRow = (case mr of Some r \<Rightarrow> r - item_h it | None \<Rightarrow> extentRows its)
      in case List.find (\<lambda>y. slotInRow it its lastCol y \<noteq> None) [0..lastRow] of
           None \<Rightarrow> None
         | Some y \<Rightarrow> map_option (\<lambda>x. (x, y)) (slotInRow it its lastCol y))"
  unfolding getAvailablePosition_def Let_def find_concat_map slotInRow_def
  by (simp add: find_map_pair split: option.splits)


lemma extentCols_bounds:
  "0 \<le> extentCols its" "i \<in> set its \<Longrightarrow> item_x i + item_w i \<le> extentCols its"
  using fold_max_bounds [of 0 "map (\<lambda>i. item_x i + item_w i) its"]
  by (simp_all add: extentCols_def)

lemma extentRows_bounds:
  "0 \<le> extentRows its" "i \<in> set its \<Longrightarrow> item_y i + item_h i \<le> extentRows its"
  using fold_max_bounds [of 0 "map (\<lambda>i. item_y i + item_h i) its"]
  by (simp_all add: extentRows_def)

lemma free_beyond_cols:
  "extentCols its \<le> x \<Longrightarrow> \<not> hasCollisions (it\<lparr>item_x := x, item_y := y\<rparr>) its"
  using extentCols_bounds(2) [of _ its]
  by (fastforce simp: hasCollisions_def list_ex_iff collides_def overlaps_def)

lemma free_beyond_rows:
  "extentRows its \<le> y \<Longrightarrow> \<not> hasCollisions (it\<lparr>item_x := x, item_y := y\<rparr>) its"
  using extentRows_bounds(2) [of _ its]
  by (fastforce simp: hasCollisions_def list_ex_iff collides_def overlaps_def)

lemma slotInRow_Some:
  "slotInRow it its lastCol y = Some x \<longleftrightarrow>
     0 \<le> x \<and> x \<le> lastCol \<and> \<not> hasCollisions (it\<lparr>item_x := x, item_y := y\<rparr>) its \<and>
     (\<forall>j. 0 \<le> j \<and> j < x \<longrightarrow> hasCollisions (it\<lparr>item_x := j, item_y := y\<rparr>) its)"
  unfolding slotInRow_def find_upto_Some by simp

lemma slotInRow_None:
  "slotInRow it its lastCol y = None \<longleftrightarrow>
     (\<forall>x. 0 \<le> x \<and> x \<le> lastCol \<longrightarrow> hasCollisions (it\<lparr>item_x := x, item_y := y\<rparr>) its)"
  unfolding slotInRow_def find_None_iff by auto

lemma validSlot_in_range:
  assumes "validSlot it its mc mr x y"
  defines "lastCol \<equiv> (case mc of Some c \<Rightarrow> c - item_w it | None \<Rightarrow> extentCols its)"
    and "lastRow \<equiv> (case mr of Some r \<Rightarrow> r - item_h it | None \<Rightarrow> extentRows its)"
  shows "\<exists>x' y'. 0 \<le> x' \<and> x' \<le> lastCol \<and> x' \<le> x \<and> 0 \<le> y' \<and> y' \<le> lastRow \<and> y' \<le> y \<and>
           (y' = y \<longrightarrow> x' \<le> x) \<and> \<not> hasCollisions (it\<lparr>item_x := x', item_y := y'\<rparr>) its"
proof -
  define x' where "x' = (case mc of Some c \<Rightarrow> x | None \<Rightarrow> min x (extentCols its))"
  define y' where "y' = (case mr of Some r \<Rightarrow> y | None \<Rightarrow> min y (extentRows its))"
  from assms(1) have v: "0 \<le> x" "0 \<le> y" "\<not> hasCollisions (it\<lparr>item_x := x, item_y := y\<rparr>) its"
    and bc: "\<And>c. mc = Some c \<Longrightarrow> x + item_w it \<le> c" and br: "\<And>r. mr = Some r \<Longrightarrow> y + item_h it \<le> r"
    by (auto simp: validSlot_def)
  have x': "0 \<le> x'" "x' \<le> lastCol" "x' \<le> x"
    using v bc extentCols_bounds(1) [of its] by (auto simp: x'_def lastCol_def split: option.splits)
  have y': "0 \<le> y'" "y' \<le> lastRow" "y' \<le> y"
    using v br extentRows_bounds(1) [of its] by (auto simp: y'_def lastRow_def split: option.splits)
  have "\<not> hasCollisions (it\<lparr>item_x := x', item_y := y\<rparr>) its"
  proof (cases "x' = x")
    case True
    with v show ?thesis by simp
  next
    case False
    then have "x' = extentCols its" by (auto simp: x'_def split: option.splits)
    then show ?thesis by (simp add: free_beyond_cols)
  qed
  then have "\<not> hasCollisions (it\<lparr>item_x := x', item_y := y'\<rparr>) its"
  proof (cases "y' = y")
    case True
    then show ?thesis using \<open>\<not> hasCollisions (it\<lparr>item_x := x', item_y := y\<rparr>) its\<close> by simp
  next
    case False
    then have "y' = extentRows its" by (auto simp: y'_def split: option.splits)
    then show ?thesis by (simp add: free_beyond_rows)
  qed
  with x' y' show ?thesis by blast
qed

lemma getAvailablePosition_Some_valid:
  assumes "getAvailablePosition it its mc mr = Some (x, y)"
  shows "validSlot it its mc mr x y \<and>
         (\<forall>x' y'. validSlot it its mc mr x' y' \<longrightarrow> y < y' \<or> (y = y' \<and> x \<le> x'))"
proof -
  define lastCol where "lastCol = (case mc of Some c \<Rightarrow> c - item_w it | None \<Rightarrow> extentCols its)"
  define lastRow where "lastRow = (case mr of Some r \<Rightarrow> r - item_h it | None \<Rightarrow> extentRows its)"
  from assms have row: "List.find (\<lambda>y. slotInRow it its lastCol y \<noteq> None) [0..lastRow] = Some y"
    and col: "slotInRow it its lastCol y = Some x"
    unfolding getAvailablePosition_rows Let_def lastCol_def lastRow_def
    by (auto split: option.splits)
  from row have y: "0 \<le> y" "y \<le> lastRow"
    and rowsAbove: "\<And>j. 0 \<le> j \<Longrightarrow> j < y \<Longrightarrow> slotInRow it its lastCol j = None"
    by (auto simp: find_upto_Some)
  from col have x: "0 \<le> x" "x \<le> lastCol" "\<not> hasCollisions (it\<lparr>item_x := x, item_y := y\<rparr>) its"
    and colsLeft: "\<And>j. 0 \<le> j \<Longrightarrow> j < x \<Longrightarrow> hasCollisions (it\<lparr>item_x := j, item_y := y\<rparr>) its"
    by (auto simp: slotInRow_Some)
  have valid: "validSlot it its mc mr x y"
    using x y by (auto simp: validSlot_def lastCol_def lastRow_def split: option.splits)
  have "y < y' \<or> (y = y' \<and> x \<le> x')" if "validSlot it its mc mr x' y'" for x' y'
  proof -
    from validSlot_in_range [OF that, folded lastCol_def lastRow_def]
    obtain a b where a: "0 \<le> a" "a \<le> lastCol" "a \<le> x'" and b: "0 \<le> b" "b \<le> lastRow" "b \<le> y'"
      and free: "\<not> hasCollisions (it\<lparr>item_x := a, item_y := b\<rparr>) its" by blast
    from a free have "slotInRow it its lastCol b \<noteq> None" by (auto simp: slotInRow_None)
    with rowsAbove [OF b(1)] have yb: "y \<le> b" by fastforce
    show ?thesis
    proof (cases "y = y'")
      case False
      with yb b show ?thesis by simp
    next
      case True
      with yb b have "b = y" by simp
      with free colsLeft [OF a(1)] have "x \<le> a" by fastforce
      with a True show ?thesis by simp
    qed
  qed
  with valid show ?thesis by blast
qed

lemma getAvailablePosition_None_iff:
  "getAvailablePosition it its mc mr = None \<longleftrightarrow> (\<forall>x y. \<not> validSlot it its mc mr x y)"
proof
  assume none: "getAvailablePosition it its mc mr = None"
  define lastCol where "lastCol = (case mc of Some c \<Rightarrow> c - item_w it | None \<Rightarrow> extentCols its)"
  define lastRow where "lastRow = (case mr of Some r \<Rightarrow> r - item_h it | None \<Rightarrow> extentRows its)"
  have noRow: "List.find (\<lambda>y. slotInRow it its lastCol y \<noteq> None) [0..lastRow] = None"
  proof (cases "List.find (\<lambda>y. slotInRow it its lastCol y \<noteq> None) [0..lastRow]")
    case None
    then show ?thesis .
  next
    case (Some y2)
    then have "slotInRow it its lastCol y2 \<noteq> None" by (simp add: find_upto_Some)
    moreover from none Some have "slotInRow it its lastCol y2 = None"
      unfolding getAvailablePosition_rows Let_def lastCol_def [symmetric] lastRow_def [symmetric]
      by simp
    ultimately show ?thesis by simp
  qed
  then have rows: "\<And>y. 0 \<le> y \<Longrightarrow> y \<le> lastRow \<Longrightarrow> slotInRow it its lastCol y = None"
    by (auto simp: find_None_iff)
  show "\<forall>x y. \<not> validSlot it its mc mr x y"
  proof (intro allI notI)
    fix x y assume "validSlot it its mc mr x y"
    from validSlot_in_range [OF this, folded lastCol_def lastRow_def]
    obtain a b where "0 \<le> a" "a \<le> lastCol" "0 \<le> b" "b \<le> lastRow"
      "\<not> hasCollisions (it\<lparr>item_x := a, item_y := b\<rparr>) its" by blast
    with rows [of b] show False by (auto simp: slotInRow_None)
  qed
next
  assume "\<forall>x y. \<not> validSlot it its mc mr x y"
  then show "getAvailablePosition it its mc mr = None"
    using getAvailablePosition_Some_valid [of it its mc mr]
    by (cases "getAvailablePosition it its mc mr") auto
qed

section \<open>Error handling\<close>

text \<open>
  C6. A move or resize update processed while \<open>itemSize\<close> is absent does not compute
  any geometry: the handler raises the error \<open>GridNotMounted\<close> and returns no state.
\<close>

theorem not_mounted_raises:
  "itemSize st = None \<Longrightarrow> move st snapped = Inl GridNotMounted \<and> resize st ev = Inl GridNotMounted"
  by (simp add: move_def resize_def)

theorem not_mounted_raises_witness:
  "itemSize (unmounted [mkItem ''a'' 0 0 2 1, mkItem ''b'' 2 0 2 1] Push) = None \<and>
   move (unmounted [mkItem ''a'' 0 0 2 1, mkItem ''b'' 2 0 2 1] Push) (1, 0) = Inl GridNotMounted \<and>
   resize (unmounted [mkItem ''a'' 0 0 2 1, mkItem ''b'' 2 0 2 1] Push)
     \<lparr>snappedW = 3, snappedH = 1, snappedPosition = (0, 0), previewPosition = (0, 0)\<rparr>
     = Inl GridNotMounted"
proof -
  have h: "itemSize (unmounted [mkItem ''a'' 0 0 2 1, mkItem ''b'' 2 0 2 1] Push) = None"
    by (simp add: unmounted_def)
  show ?thesis
    using h not_mounted_raises [OF h] by simp
qed

text \<open>
  C5. In push mode, when the free-slot search finds no position for a colliding item,
  the store is left as it is, so the item keeps its \<open>x\<close> and \<open>y\<close>; and the handlers of a
  mounted grid return a state, never an error, in push mode as in every mode.
\<close>

theorem push_exhausted_keeps_position:
  "getAvailablePosition (s ! collItem) its mc mr = None \<Longrightarrow>
     updateCollItemPositionWithPush mc mr collItem its s = s \<and>
     (itemSize st \<noteq> None \<longrightarrow> \<not> isl (move st snapped) \<and> \<not> isl (resize st ev))"
proof (intro conjI impI)
  assume "getAvailablePosition (s ! collItem) its mc mr = None"
  then show "updateCollItemPositionWithPush mc mr collItem its s = s"
    by (simp add: updateCollItemPositionWithPush_def)
next
  assume "itemSize st \<noteq> None"
  then show "\<not> isl (move st snapped)"
    by (cases "itemSize st") (simp_all add: move_def Let_def)
next
  assume "itemSize st \<noteq> None"
  then show "\<not> isl (resize st ev)"
    by (cases "itemSize st") (simp_all add: resize_def Let_def)
qed

theorem push_exhausted_keeps_position_witness:
  "getAvailablePosition ([mkItem ''a'' 0 0 1 1, mkItem ''b'' 1 0 2 1] ! 1)
      [mkItem ''a'' 1 0 1 1] (Some 3) (Some 1) = None \<and>
   updateCollItemPositionWithPush (Some 3) (Some 1) 1 [mkItem ''a'' 1 0 1 1]
      [mkItem ''a'' 0 0 1 1, mkItem ''b'' 1 0 2 1]
     = [mkItem ''a'' 0 0 1 1, mkItem ''b'' 1 0 2 1] \<and>
   \<not> isl (move (mounted [mkItem ''a'' 0 0 1 1, mkItem ''b'' 1 0 2 1] Push (Some 3) (Some 1)) (1, 0)) \<and>
   \<not> isl (resize (mounted [mkItem ''a'' 0 0 1 1, mkItem ''b'' 1 0 2 1] Push (Some 3) (Some 1))
            \<lparr>snappedW = 2, snappedH = 1, snappedPosition = (0, 0), previewPosition = (0, 0)\<rparr>)"
proof -
  have h: "getAvailablePosition ([mkItem ''a'' 0 0 1 1, mkItem ''b'' 1 0 2 1] ! 1)
      [mkItem ''a'' 1 0 1 1] (Some 3) (Some 1) = None"
    by code_simp
  have m: "itemSize (mounted [mkItem ''a'' 0 0 1 1, mkItem ''b'' 1 0 2 1] Push (Some 3) (Some 1)) \<noteq> None"
    by (simp add: mounted_def)
  show ?thesis
    using h m push_exhausted_keeps_position [OF h,
        of "mounted [mkItem ''a'' 0 0 1 1, mkItem ''b'' 1 0 2 1] Push (Some 3) (Some 1)"]
    by simp
qed

section \<open>Frame of a push relocation\<close>

text \<open>
  C10. A push relocation assigns only \<open>x\<close> and \<open>y\<close>: for every object of the store the
  fields \<open>id\<close>, \<open>w\<close>, \<open>h\<close>, \<open>min\<close>, \<open>max\<close>, \<open>movable\<close> and \<open>resizable\<close> are the same before
  and after \<^verbatim>\<open>updateCollItemPositionWithPush\<close>.
\<close>

theorem push_relocation_frame:
  "map otherFields (updateCollItemPositionWithPush mc mr collItem its s) = map otherFields s"
proof (cases "getAvailablePosition (s ! collItem) its mc mr")
  case None
  then show ?thesis by (simp add: updateCollItemPositionWithPush_def)
next
  case (Some p)
  obtain x y where p: "p = (x, y)" by (cases p)
  have same: "otherFields (s[collItem := (s ! collItem)\<lparr>item_x := x, item_y := y\<rparr>] ! i) = otherFields (s ! i)"
    if "i < length s" for i
    using that by (cases "i = collItem") (simp_all add: otherFields_def)
  have "map otherFields (s[collItem := (s ! collItem)\<lparr>item_x := x, item_y := y\<rparr>]) = map otherFields s"
    by (rule nth_equalityI) (simp_all add: same)
  with Some p show ?thesis by (simp add: updateCollItemPositionWithPush_def)
qed


section \<open>Mode \<open>none\<close>\<close>

text \<open>
  C2 as stated fails. In mode \<open>none\<close> the item \<open>p\<close> at \<open>(0, 0)\<close> is dragged onto the cell
  \<open>(0, 3)\<close> that \<open>b\<close> occupies: the handler checks for collisions and drops the candidate,
  the preview stays where it was. Likewise a resize of \<open>p\<close> to width 2 over its
  neighbour \<open>c\<close> is dropped.
\<close>

theorem none_mode_drops_colliding_candidate:
  "collision (mounted [mkItem ''p'' 0 0 1 1, mkItem ''b'' 0 3 1 1, mkItem ''c'' 1 0 1 1] CollisionNone None None)
     = CollisionNone \<and>
   move (mounted [mkItem ''p'' 0 0 1 1, mkItem ''b'' 0 3 1 1, mkItem ''c'' 1 0 1 1] CollisionNone None None) (0, 3)
     = Inr (mounted [mkItem ''p'' 0 0 1 1, mkItem ''b'' 0 3 1 1, mkItem ''c'' 1 0 1 1] CollisionNone None None) \<and>
   coords (previewItem (mounted [mkItem ''p'' 0 0 1 1, mkItem ''b'' 0 3 1 1, mkItem ''c'' 1 0 1 1] CollisionNone None None))
     = (0, 0, 1, 1) \<and>
   resize (mounted [mkItem ''p'' 0 0 1 1, mkItem ''b'' 0 3 1 1, mkItem ''c'' 1 0 1 1] CollisionNone None None)
      \<lparr>snappedW = 2, snappedH = 1, snappedPosition = (0, 0), previewPosition = (0, 0)\<rparr>
     = Inr (mounted [mkItem ''p'' 0 0 1 1, mkItem ''b'' 0 3 1 1, mkItem ''c'' 1 0 1 1] CollisionNone None None)"
  by code_simp

text \<open>
  C2 as amended. In mode \<open>none\<close> every sample runs \<^verbatim>\<open>hasCollisions\<close> on the candidate
  against all items: a candidate that collides with no other item becomes the preview,
  a colliding candidate is dropped and the state stays as it was. The items of the grid
  are not changed by the sample in either case.
\<close>

theorem none_mode_accepts_only_free_candidates:
  assumes "collision st = CollisionNone" and "itemSize st = Some sz"
  shows "move st (x, y) =
           Inr (if hasCollisions ((previewItem st)\<lparr>item_x := x, item_y := y\<rparr>) (items st) then st
                else st\<lparr>previewItem := (previewItem st)\<lparr>item_x := x, item_y := y\<rparr>\<rparr>) \<and>
         resize st ev =
           Inr (if hasCollisions (resizeCandidate st ev) (items st) then st
                else st\<lparr>previewItem := resizeCandidate st ev\<rparr>)"
  using assms by (simp add: move_def resize_def Let_def map_nth_gridItems)

theorem none_mode_accepts_only_free_candidates_witness:
  "move (mounted [mkItem ''p'' 0 0 1 1, mkItem ''b'' 0 3 1 1] CollisionNone None None) (0, 2) =
     Inr ((mounted [mkItem ''p'' 0 0 1 1, mkItem ''b'' 0 3 1 1] CollisionNone None None)
            \<lparr>previewItem := mkItem ''p'' 0 2 1 1\<rparr>) \<and>
   resize (mounted [mkItem ''p'' 0 0 1 1, mkItem ''b'' 0 3 1 1] CollisionNone None None)
      \<lparr>snappedW = 1, snappedH = 4, snappedPosition = (0, 0), previewPosition = (0, 0)\<rparr> =
     Inr (mounted [mkItem ''p'' 0 0 1 1, mkItem ''b'' 0 3 1 1] CollisionNone None None)"
proof -
  let ?st = "mounted [mkItem ''p'' 0 0 1 1, mkItem ''b'' 0 3 1 1] CollisionNone None None"
  let ?ev = "\<lparr>snappedW = 1, snappedH = 4, snappedPosition = (0, 0), previewPosition = (0, 0)\<rparr>"
  have c: "collision ?st = CollisionNone" and m: "itemSize ?st = Some \<lparr>width = 100, height = 100\<rparr>"
    by (simp_all add: mounted_def)
  have free: "\<not> hasCollisions ((previewItem ?st)\<lparr>item_x := 0, item_y := 2\<rparr>) (items ?st)"
    by code_simp
  have taken: "hasCollisions (resizeCandidate ?st ?ev) (items ?st)"
    by code_simp
  have pv: "(previewItem ?st)\<lparr>item_x := 0, item_y := 2\<rparr> = mkItem ''p'' 0 2 1 1"
    by (simp add: mounted_def mkItem_def)
  show ?thesis
    using none_mode_accepts_only_free_candidates [OF c m, of 0 2 ?ev] free taken pv by simp
qed

section \<open>Push mode: the handlers\<close>

text \<open>
  In push mode both pointer handlers of a mounted grid end in
  \<^verbatim>\<open>handleCollisionsForPreviewItemWithPush\<close>: a move with the snapped cell, a resize with
  the cell snapped for the preview and the clamped size.
\<close>

lemma push_handlers:
  assumes "collision st = Push" and "itemSize st = Some sz"
  shows "move st snapped =
           Inr (handleCollisionsForPreviewItemWithPush st
                  \<lparr>new_x = Some (fst snapped), new_y = Some (snd snapped), new_w = None, new_h = None\<rparr>)"
    and "resize st ev =
           Inr (handleCollisionsForPreviewItemWithPush st
                  \<lparr>new_x = Some (fst (previewPosition ev)), new_y = Some (snd (previewPosition ev)),
                   new_w = Some (item_w (resizeCandidate st ev)),
                   new_h = Some (item_h (resizeCandidate st ev))\<rparr>)"
  using assms
  by (simp_all add: move_def resize_def Let_def movePreviewWithCollisions_def
      movePreviewWithCollisionsWithPush_def resizePreviewWithCollisions_def
      resizePreviewWithCollisionsWithPush_def)

section \<open>Push mode: what a sample mutates\<close>

text \<open>
  C3 as stated fails. In push mode one pointer-move sample, with no \<^verbatim>\<open>pointerup\<close> and no
  \<^verbatim>\<open>endInteraction\<close>, already changes the items of the grid: \<open>a\<close> is dragged from column
  0 to column 1, its neighbour \<open>b\<close> is relocated from column 2 to column 3 and \<open>a\<close> itself
  is written back.
\<close>

theorem push_sample_mutates_items:
  "move (mounted [mkItem ''a'' 0 0 2 1, mkItem ''b'' 2 0 2 1] Push None None) (1, 0)
     = Inr (mounted [mkItem ''a'' 1 0 2 1, mkItem ''b'' 3 0 2 1] Push None None) \<and>
   items (mounted [mkItem ''a'' 1 0 2 1, mkItem ''b'' 3 0 2 1] Push None None)
     \<noteq> items (mounted [mkItem ''a'' 0 0 2 1, mkItem ''b'' 2 0 2 1] Push None None)"
  by code_simp

lemma distinct_pushCollItems: "distinct (pushCollItems s pv cand)"
  by (simp add: pushCollItems_def getCollisions_def gridItems_def Let_def)

lemma set_pushCollItems_range: "c \<in> set (pushCollItems s pv cand) \<Longrightarrow> c < length s"
  by (auto simp: pushCollItems_def getCollisions_def gridItems_def Let_def)

lemma pushCollItem_at:
  "c < length s \<Longrightarrow>
     pushCollItem mc mr pv cand c s ! c =
       (case getAvailablePosition (s ! c) (tempItems pv cand c s) mc mr of
          Some (x, y) \<Rightarrow> (s ! c)\<lparr>item_x := x, item_y := y\<rparr>
        | None \<Rightarrow> s ! c)"
  by (simp add: pushCollItem_def updateCollItemPositionWithPush_def split: option.splits)

lemma fold_pushCollItem_collider:
  assumes "distinct (pre @ c # post)" and "c < length s"
  shows "fold (pushCollItem mc mr pv cand) (pre @ c # post) s ! c =
       (case getAvailablePosition (s ! c)
               (tempItems pv cand c (fold (pushCollItem mc mr pv cand) pre s)) mc mr of
          Some (x, y) \<Rightarrow> (s ! c)\<lparr>item_x := x, item_y := y\<rparr>
        | None \<Rightarrow> s ! c)"
proof -
  let ?s1 = "fold (pushCollItem mc mr pv cand) pre s"
  from assms(1) have pre: "c \<notin> set pre" and post: "c \<notin> set post" by auto
  have at: "?s1 ! c = s ! c" by (rule fold_pushCollItem_other [OF pre])
  have len: "c < length ?s1" using assms(2) by (simp add: length_fold_pushCollItem)
  have "fold (pushCollItem mc mr pv cand) (pre @ c # post) s ! c
      = pushCollItem mc mr pv cand c ?s1 ! c"
    by (simp add: fold_pushCollItem_other [OF post])
  also have "\<dots> = (case getAvailablePosition (?s1 ! c) (tempItems pv cand c ?s1) mc mr of
          Some (x, y) \<Rightarrow> (?s1 ! c)\<lparr>item_x := x, item_y := y\<rparr>
        | None \<Rightarrow> ?s1 ! c)"
    by (rule pushCollItem_at [OF len])
  finally show ?thesis by (simp only: at)
qed

text \<open>
  C3 as amended. In push mode every sample mutates the items of the grid while it is
  processed: each colliding item is relocated to the slot its search finds, on the store
  as the earlier relocations of the sample have left it (and keeps its place when the
  search finds none), and at the end of the same sample the candidate becomes the
  preview and is applied to the component's own item. An item that is neither in the
  collision list nor the component's own is left as it was.
\<close>

theorem push_sample_frame:
  "(r \<notin> set (pushCollItems (items st) (previewItem st) (spread (previewItem st) newAttributes))
      \<and> r \<noteq> item st \<longrightarrow>
      items (handleCollisionsForPreviewItemWithPush st newAttributes) ! r = items st ! r) \<and>
   (pushCollItems (items st) (previewItem st) (spread (previewItem st) newAttributes) = pre @ c # post
      \<and> c \<noteq> item st \<longrightarrow>
      items (handleCollisionsForPreviewItemWithPush st newAttributes) ! c =
        (case getAvailablePosition (items st ! c)
                (tempItems (previewItem st) (spread (previewItem st) newAttributes) c
                   (fold (pushCollItem (maxCols st) (maxRows st) (previewItem st)
                            (spread (previewItem st) newAttributes)) pre (items st)))
                (maxCols st) (maxRows st) of
           Some (x, y) \<Rightarrow> (items st ! c)\<lparr>item_x := x, item_y := y\<rparr>
         | None \<Rightarrow> items st ! c)) \<and>
   (item st < length (items st) \<longrightarrow>
      coords (items (handleCollisionsForPreviewItemWithPush st newAttributes) ! item st)
        = coords (spread (previewItem st) newAttributes)) \<and>
   previewItem (handleCollisionsForPreviewItemWithPush st newAttributes)
     = spread (previewItem st) newAttributes"
proof (intro conjI impI)
  let ?cand = "spread (previewItem st) newAttributes"
  let ?cs = "pushCollItems (items st) (previewItem st) ?cand"
  assume h: "?cs = pre @ c # post \<and> c \<noteq> item st"
  then have d: "distinct (pre @ c # post)"
    using distinct_pushCollItems [of "items st" "previewItem st" ?cand] by simp
  from h have "c \<in> set ?cs" by simp
  then have c: "c < length (items st)" by (rule set_pushCollItems_range)
  from h have "items (handleCollisionsForPreviewItemWithPush st newAttributes) ! c
      = fold (pushCollItem (maxCols st) (maxRows st) (previewItem st) ?cand) (pre @ c # post) (items st) ! c"
    by (simp add: handleCollisionsForPreviewItemWithPush_def applyPreview_def Let_def)
  then show "items (handleCollisionsForPreviewItemWithPush st newAttributes) ! c =
        (case getAvailablePosition (items st ! c)
                (tempItems (previewItem st) ?cand c
                   (fold (pushCollItem (maxCols st) (maxRows st) (previewItem st) ?cand) pre (items st)))
                (maxCols st) (maxRows st) of
           Some (x, y) \<Rightarrow> (items st ! c)\<lparr>item_x := x, item_y := y\<rparr>
         | None \<Rightarrow> items st ! c)"
    by (simp only: fold_pushCollItem_collider [OF d c])
qed (simp_all add: handleCollisionsForPreviewItemWithPush_def applyPreview_def Let_def coords_def
      fold_pushCollItem_other length_fold_pushCollItem)

theorem push_sample_frame_witness:
  "items (handleCollisionsForPreviewItemWithPush
       (mounted [mkItem ''a'' 0 0 1 1, mkItem ''b'' 1 0 1 1, mkItem ''c'' 2 0 1 1, mkItem ''d'' 0 1 1 1]
          Push None None)
       \<lparr>new_x = Some 0, new_y = Some 0, new_w = Some 3, new_h = Some 1\<rparr>)
     = [mkItem ''a'' 0 0 3 1, mkItem ''b'' 3 0 1 1, mkItem ''c'' 4 0 1 1, mkItem ''d'' 0 1 1 1] \<and>
   previewItem (handleCollisionsForPreviewItemWithPush
       (mounted [mkItem ''a'' 0 0 1 1, mkItem ''b'' 1 0 1 1, mkItem ''c'' 2 0 1 1, mkItem ''d'' 0 1 1 1]
          Push None None)
       \<lparr>new_x = Some 0, new_y = Some 0, new_w = Some 3, new_h = Some 1\<rparr>) = mkItem ''a'' 0 0 3 1"
proof -
  let ?s = "[mkItem ''a'' 0 0 1 1, mkItem ''b'' 1 0 1 1, mkItem ''c'' 2 0 1 1, mkItem ''d'' 0 1 1 1]"
  let ?st = "mounted ?s Push None None"
  let ?na = "\<lparr>new_x = Some 0, new_y = Some 0, new_w = Some 3, new_h = Some 1\<rparr>"
  let ?cand = "mkItem ''a'' 0 0 3 1"
  let ?res = "items (handleCollisionsForPreviewItemWithPush ?st ?na)"
  have cand: "spread (previewItem ?st) ?na = ?cand"
    by (simp add: mounted_def spread_def mkItem_def)
  have st: "items ?st = ?s" "item ?st = 0" "previewItem ?st = mkItem ''a'' 0 0 1 1"
    "maxCols ?st = None" "maxRows ?st = None"
    by (simp_all add: mounted_def)
  have colls: "pushCollItems ?s (mkItem ''a'' 0 0 1 1) ?cand = [1, 2]"
    by code_simp
  have first: "getAvailablePosition (?s ! 1)
      (tempItems (mkItem ''a'' 0 0 1 1) ?cand 1 (fold (pushCollItem None None (mkItem ''a'' 0 0 1 1) ?cand) [] ?s))
      None None = Some (3, 0)"
    by code_simp
  have second: "getAvailablePosition (?s ! 2)
      (tempItems (mkItem ''a'' 0 0 1 1) ?cand 2 (fold (pushCollItem None None (mkItem ''a'' 0 0 1 1) ?cand) [1] ?s))
      None None = Some (4, 0)"
    by code_simp
  note thm1 = push_sample_frame [of 3 ?st ?na "[]" 1 "[2]", unfolded cand, unfolded st]
  note thm2 = push_sample_frame [of 3 ?st ?na "[1]" 2 "[]", unfolded cand, unfolded st]
  have len: "length ?res = 4"
    by (simp add: handleCollisionsForPreviewItemWithPush_def applyPreview_def Let_def
        length_fold_pushCollItem mounted_def)
  have r3: "?res ! 3 = mkItem ''d'' 0 1 1 1"
    using thm1 colls by simp
  have r1: "?res ! 1 = mkItem ''b'' 3 0 1 1"
    using thm1 colls first by (simp add: mkItem_def)
  have r2: "?res ! 2 = mkItem ''c'' 4 0 1 1"
    using thm2 colls second by (simp add: mkItem_def)
  have pv: "previewItem (handleCollisionsForPreviewItemWithPush ?st ?na) = ?cand"
    using thm1 by simp
  have r0: "?res ! 0 = mkItem ''a'' 0 0 3 1"
    by code_simp
  have "?res = [mkItem ''a'' 0 0 3 1, mkItem ''b'' 3 0 1 1, mkItem ''c'' 4 0 1 1, mkItem ''d'' 0 1 1 1]"
    using len r0 r1 r2 r3 by (intro nth_equalityI) (auto simp: less_Suc_eq numeral_eq_Suc)
  with pv show ?thesis by simp
qed


section \<open>Push mode: the relocation loop\<close>

lemma map_item_id_update:
  "map item_id (s[c := (s ! c)\<lparr>item_x := x, item_y := y\<rparr>]) = map item_id s"
proof (rule nth_equalityI)
  fix i assume "i < length (map item_id (s[c := (s ! c)\<lparr>item_x := x, item_y := y\<rparr>]))"
  then show "map item_id (s[c := (s ! c)\<lparr>item_x := x, item_y := y\<rparr>]) ! i = map item_id s ! i"
    by (cases "i = c") simp_all
qed simp

lemma map_item_id_updateCollItemPositionWithPush:
  "map item_id (updateCollItemPositionWithPush mc mr c its s) = map item_id s"
  by (simp add: updateCollItemPositionWithPush_def map_item_id_update split: option.splits)

lemma map_item_id_pushCollItem:
  "map item_id (pushCollItem mc mr pv cand c s) = map item_id s"
  by (simp add: pushCollItem_def map_item_id_updateCollItemPositionWithPush)

lemma distinctIds_nth_eq:
  "distinctIds s \<Longrightarrow> i < length s \<Longrightarrow> j < length s \<Longrightarrow> item_id (s ! i) = item_id (s ! j) \<longleftrightarrow> i = j"
  using nth_eq_iff_index_eq [of "map item_id s" i j] by (simp add: distinctIds_def)

lemma getAvailablePosition_free:
  "getAvailablePosition it its mc mr = Some (x, y) \<Longrightarrow>
     \<not> hasCollisions (it\<lparr>item_x := x, item_y := y\<rparr>) its"
  by (auto simp: getAvailablePosition_def Let_def find_Some_iff)

lemma tempItems_eq_tempItemSet:
  assumes "distinctIds s" "self < length s" "item_id (s ! self) = item_id pv" "c < length s"
  shows "tempItems pv cand c s = tempItemSet s c self cand"
proof -
  have key: "(item_id (s ! r) \<noteq> item_id pv \<and> item_id (s ! r) \<noteq> item_id (s ! c)) = (r \<noteq> c \<and> r \<noteq> self)"
    if "r < length s" for r
    using distinctIds_nth_eq [OF assms(1) that assms(4)] distinctIds_nth_eq [OF assms(1) that assms(2)]
      assms(3) by auto
  have "filter (\<lambda>r. item_id (s ! r) \<noteq> item_id pv)
          (filter (\<lambda>r. item_id (s ! r) \<noteq> item_id (s ! c)) [0..<length s])
        = filter (\<lambda>r. r \<noteq> c \<and> r \<noteq> self) [0..<length s]"
    unfolding filter_filter by (rule filter_cong) (use key in auto)
  then show ?thesis
    by (simp add: tempItems_def tempItemSet_def gridItems_def)
qed

lemma pushCollItems_eq_collisionList:
  assumes "distinctIds s" "self < length s" "item_id (s ! self) = item_id pv" "item_id cand = item_id pv"
  shows "pushCollItems s pv cand = collisionList s self cand"
proof -
  have key: "(item_id (s ! r) \<noteq> item_id pv \<and> collides cand (s ! r)) = (r \<noteq> self \<and> overlaps cand (s ! r))"
    if "r < length s" for r
    using distinctIds_nth_eq [OF assms(1) that assms(2)] assms(3,4)
    by (auto simp: collides_def)
  have "filter (\<lambda>r. collides cand (s ! r)) (filter (\<lambda>r. item_id (s ! r) \<noteq> item_id pv) [0..<length s])
        = filter (\<lambda>r. r \<noteq> self \<and> overlaps cand (s ! r)) [0..<length s]"
    unfolding filter_filter by (rule filter_cong) (use key in auto)
  then show ?thesis
    by (simp add: pushCollItems_def collisionList_def getCollisions_def gridItems_def)
qed

lemma not_hasCollisions_tempItemSet:
  assumes "\<not> hasCollisions new (tempItemSet s c self cand)"
  shows "(\<forall>r<length s. r \<noteq> c \<and> r \<noteq> self \<longrightarrow> \<not> collides new (s ! r)) \<and> \<not> collides new cand"
  using assms by (auto simp: hasCollisions_def list_ex_iff tempItemSet_def)


lemma overlaps_coords_left: "coords a = coords a' \<Longrightarrow> overlaps a b = overlaps a' b"
  by (auto simp: coords_def overlaps_def)

lemma push_step:
  assumes d: "distinctIds s" and self: "self < length s"
    and ids: "item_id (s ! self) = item_id pv" "item_id cand = item_id pv"
    and c: "c < length s" "c \<noteq> self"
    and found: "getAvailablePosition (s ! c) (tempItems pv cand c s) mc mr \<noteq> None"
    and apart: "othersApart s self"
  shows "othersApart (pushCollItem mc mr pv cand c s) self \<and>
         \<not> overlaps cand (pushCollItem mc mr pv cand c s ! c)"
proof -
  from found obtain x y where f: "getAvailablePosition (s ! c) (tempItems pv cand c s) mc mr = Some (x, y)"
    by (cases "getAvailablePosition (s ! c) (tempItems pv cand c s) mc mr") auto
  let ?new = "(s ! c)\<lparr>item_x := x, item_y := y\<rparr>"
  have s': "pushCollItem mc mr pv cand c s = s[c := ?new]"
    using f by (simp add: pushCollItem_def updateCollItemPositionWithPush_def)
  have "\<not> hasCollisions ?new (tempItemSet s c self cand)"
    using getAvailablePosition_free [OF f] tempItems_eq_tempItemSet [OF d self ids(1) c(1)] by simp
  from not_hasCollisions_tempItemSet [OF this]
  have others: "\<And>r. r < length s \<Longrightarrow> r \<noteq> c \<Longrightarrow> r \<noteq> self \<Longrightarrow> \<not> collides ?new (s ! r)"
    and candFree: "\<not> collides ?new cand" by auto
  have newOthers: "\<not> overlaps ?new (s ! r)" if "r < length s" "r \<noteq> c" "r \<noteq> self" for r
    using others [OF that] distinctIds_nth_eq [OF d that(1) c(1)] that(2) by (simp add: collides_def)
  have "item_id cand \<noteq> item_id (s ! c)"
    using distinctIds_nth_eq [OF d self c(1)] c(2) ids by auto
  with candFree have newCand: "\<not> overlaps ?new cand" by (simp add: collides_def)
  have "othersApart (s[c := ?new]) self"
    unfolding othersApart_def
  proof (intro allI impI)
    fix i j assume i: "i < length (s[c := ?new])" and j: "j < length (s[c := ?new])"
      and neq: "i \<noteq> j \<and> i \<noteq> self \<and> j \<noteq> self"
    show "\<not> overlaps (s[c := ?new] ! i) (s[c := ?new] ! j)"
    proof (cases "i = c")
      case True
      with neq i j newOthers [of j] c show ?thesis by simp
    next
      case ic: False
      show ?thesis
      proof (cases "j = c")
        case True
        with neq i j newOthers [of i] c ic show ?thesis by (simp add: overlaps_sym [of "s ! i"])
      next
        case False
        with ic neq i j apart show ?thesis by (simp add: othersApart_def)
      qed
    qed
  qed
  moreover have "\<not> overlaps cand (s[c := ?new] ! c)"
    using newCand c(1) by (simp add: overlaps_sym [of cand])
  ultimately show ?thesis by (simp add: s')
qed

lemma push_fold:
  assumes "distinctIds s" "self < length s" "item_id (s ! self) = item_id pv" "item_id cand = item_id pv"
    and "\<forall>c\<in>set cs. c < length s \<and> c \<noteq> self"
    and "searchesSucceed mc mr pv cand cs s"
    and "othersApart s self"
    and "\<forall>i<length s. i \<noteq> self \<and> i \<notin> set cs \<longrightarrow> \<not> overlaps cand (s ! i)"
  shows "othersApart (fold (pushCollItem mc mr pv cand) cs s) self \<and>
         (\<forall>i<length s. i \<noteq> self \<longrightarrow> \<not> overlaps cand (fold (pushCollItem mc mr pv cand) cs s ! i))"
  using assms
proof (induction cs arbitrary: s)
  case Nil
  then show ?case by simp
next
  case (Cons c cs)
  let ?s1 = "pushCollItem mc mr pv cand c s"
  from Cons.prems have c: "c < length s" "c \<noteq> self" by auto
  from Cons.prems have found: "getAvailablePosition (s ! c) (tempItems pv cand c s) mc mr \<noteq> None"
    and rest: "searchesSucceed mc mr pv cand cs ?s1" by auto
  from push_step [OF Cons.prems(1-4) c found Cons.prems(7)]
  have apart1: "othersApart ?s1 self" and cfree: "\<not> overlaps cand (?s1 ! c)" by auto
  have len: "length ?s1 = length s" by (rule length_pushCollItem)
  have d1: "distinctIds ?s1"
    using Cons.prems(1) by (simp add: distinctIds_def map_item_id_pushCollItem)
  have self1: "item_id (?s1 ! self) = item_id pv"
    using Cons.prems(3) c(2) by (simp add: pushCollItem_other)
  have cs1: "\<forall>c\<in>set cs. c < length ?s1 \<and> c \<noteq> self"
    using Cons.prems(5) len by simp
  have clear1: "\<forall>i<length ?s1. i \<noteq> self \<and> i \<notin> set cs \<longrightarrow> \<not> overlaps cand (?s1 ! i)"
  proof (intro allI impI)
    fix i assume i: "i < length ?s1" and h: "i \<noteq> self \<and> i \<notin> set cs"
    show "\<not> overlaps cand (?s1 ! i)"
    proof (cases "i = c")
      case True
      with cfree show ?thesis by simp
    next
      case False
      with i h len Cons.prems(8) show ?thesis by (simp add: pushCollItem_other)
    qed
  qed
  from Cons.IH [OF d1 _ self1 Cons.prems(4) cs1 rest apart1 clear1] Cons.prems(2) len
  show ?case by simp
qed


lemma map_item_id_fold_pushCollItem:
  "map item_id (fold (pushCollItem mc mr pv cand) cs s) = map item_id s"
  by (induction cs arbitrary: s) (simp_all add: map_item_id_pushCollItem)

lemma item_id_fold_pushCollItem:
  "i < length s \<Longrightarrow> item_id (fold (pushCollItem mc mr pv cand) cs s ! i) = item_id (s ! i)"
  using arg_cong [OF map_item_id_fold_pushCollItem [of mc mr pv cand cs s], of "\<lambda>xs. xs ! i"]
  by (simp add: length_fold_pushCollItem)

lemma map_item_id_applied:
  "map item_id (s[k := (s ! k)\<lparr>item_x := a, item_y := b, item_w := c, item_h := d\<rparr>]) = map item_id s"
proof (rule nth_equalityI)
  fix i assume "i < length (map item_id (s[k := (s ! k)\<lparr>item_x := a, item_y := b, item_w := c, item_h := d\<rparr>]))"
  then show "map item_id (s[k := (s ! k)\<lparr>item_x := a, item_y := b, item_w := c, item_h := d\<rparr>]) ! i
      = map item_id s ! i"
    by (cases "i = k") simp_all
qed simp

lemma item_id_spread: "item_id (spread pv na) = item_id pv"
  by (simp add: spread_def)

lemma set_collisionList:
  "set (collisionList s self cand) = {r. r < length s \<and> r \<noteq> self \<and> overlaps cand (s ! r)}"
  by (auto simp: collisionList_def)

lemma fold_pushCollItem_eq_relocateInOrder:
  assumes "distinctIds s" "self < length s" "item_id (s ! self) = item_id pv"
    and "\<forall>c\<in>set cs. c < length s"
  shows "fold (pushCollItem mc mr pv cand) cs s = relocateInOrder mc mr self cand cs s"
  using assms
proof (induction cs arbitrary: s)
  case Nil
  then show ?case by simp
next
  case (Cons c cs)
  let ?s1 = "pushCollItem mc mr pv cand c s"
  from Cons.prems have c: "c < length s" by simp
  have step: "?s1 = updateCollItemPositionWithPush mc mr c (tempItemSet s c self cand) s"
    using tempItems_eq_tempItemSet [OF Cons.prems(1-3) c] by (simp add: pushCollItem_def)
  have len: "length ?s1 = length s" by (rule length_pushCollItem)
  have ids: "map item_id ?s1 = map item_id s" by (rule map_item_id_pushCollItem)
  have d1: "distinctIds ?s1" using Cons.prems(1) by (simp add: distinctIds_def ids)
  have "item_id (?s1 ! self) = item_id (s ! self)"
    using arg_cong [OF ids, of "\<lambda>xs. xs ! self"] Cons.prems(2) len by simp
  then have self1: "item_id (?s1 ! self) = item_id pv" using Cons.prems(3) by simp
  have "fold (pushCollItem mc mr pv cand) cs ?s1 = relocateInOrder mc mr self cand cs ?s1"
    using Cons.IH [OF d1 _ self1] Cons.prems(2,4) len by simp
  then show ?case using step by simp
qed

lemma getAvailablePosition_unbounded: "getAvailablePosition it its None None \<noteq> None"
proof -
  let ?E = "extentCols its"
  have E0: "0 \<le> ?E" and R0: "0 \<le> extentRows its"
    using fold_max_bounds [of 0] by (simp_all add: extentCols_def extentRows_def)
  have edge: "item_x i + item_w i \<le> ?E" if "i \<in> set its" for i
    using fold_max_bounds [of 0 "map (\<lambda>i. item_x i + item_w i) its"] that
    by (simp add: extentCols_def)
  have free: "\<not> hasCollisions (it\<lparr>item_x := ?E, item_y := 0\<rparr>) its"
    using edge by (fastforce simp: hasCollisions_def list_ex_iff collides_def overlaps_def)
  have "(?E, 0) \<in> set (concat (map (\<lambda>y. map (\<lambda>x. (x, y)) [0..?E]) [0..extentRows its]))"
    using E0 R0 by (auto intro!: bexI [of _ 0])
  with free show ?thesis
    by (auto simp: getAvailablePosition_def Let_def find_None_iff)
qed

lemma searchesSucceed_unbounded: "searchesSucceed None None pv cand cs s"
  by (induction cs arbitrary: s) (simp_all add: getAvailablePosition_unbounded)

lemma noOverlap_list_all:
  "noOverlap s \<longleftrightarrow>
     list_all (\<lambda>i. list_all (\<lambda>j. i = j \<or> \<not> overlaps (s ! i) (s ! j)) [0..<length s]) [0..<length s]"
  unfolding noOverlap_def list_all_iff Ball_def set_upt atLeastLessThan_iff by blast


text \<open>
  C4. On a store with pairwise different ids, the push handler is the sequential
  relocation of the spec: the collision list is the items other than the moving one that
  overlap the candidate, in store order; each colliding item is searched a slot over
  the temporary item set of all items except itself and except the moving item, plus
  the candidate; the set is read from the store as the earlier relocations have left it,
  so a collider relocated before is in the later sets at its new position.
\<close>

theorem push_relocates_in_order:
  assumes d: "distinctIds (items st)" and reg: "registered st"
  shows "handleCollisionsForPreviewItemWithPush st newAttributes =
           applyPreview (st\<lparr>items := relocateInOrder (maxCols st) (maxRows st) (item st)
                                      (spread (previewItem st) newAttributes)
                                      (collisionList (items st) (item st) (spread (previewItem st) newAttributes))
                                      (items st),
                            previewItem := spread (previewItem st) newAttributes\<rparr>) \<and>
         (c < length s \<and> c \<noteq> c' \<and> c \<noteq> self \<and> getAvailablePosition (s ! c) its mc mr = Some (x, y) \<longrightarrow>
            (s ! c)\<lparr>item_x := x, item_y := y\<rparr>
              \<in> set (tempItemSet (updateCollItemPositionWithPush mc mr c its s) c' self candidate))"
proof (intro conjI impI)
  let ?s = "items st" and ?self = "item st" and ?pv = "previewItem st"
  let ?cand = "spread (previewItem st) newAttributes"
  from reg have self: "?self < length ?s" and ids: "item_id (?s ! ?self) = item_id ?pv"
    by (simp_all add: registered_def)
  have cs: "pushCollItems ?s ?pv ?cand = collisionList ?s ?self ?cand"
    by (rule pushCollItems_eq_collisionList [OF d self ids item_id_spread])
  have "\<forall>c\<in>set (collisionList ?s ?self ?cand). c < length ?s"
    by (simp add: set_collisionList)
  from fold_pushCollItem_eq_relocateInOrder [OF d self ids this]
  show "handleCollisionsForPreviewItemWithPush st newAttributes =
           applyPreview (st\<lparr>items := relocateInOrder (maxCols st) (maxRows st) ?self ?cand
                                      (collisionList ?s ?self ?cand) ?s,
                            previewItem := ?cand\<rparr>)"
    by (simp add: handleCollisionsForPreviewItemWithPush_def Let_def cs)
next
  assume h: "c < length s \<and> c \<noteq> c' \<and> c \<noteq> self \<and> getAvailablePosition (s ! c) its mc mr = Some (x, y)"
  let ?s1 = "updateCollItemPositionWithPush mc mr c its s"
  from h have s1: "?s1 = s[c := (s ! c)\<lparr>item_x := x, item_y := y\<rparr>]"
    by (simp add: updateCollItemPositionWithPush_def)
  from h have at: "?s1 ! c = (s ! c)\<lparr>item_x := x, item_y := y\<rparr>"
    by (simp add: s1)
  from h have "c \<in> set (filter (\<lambda>r. r \<noteq> c' \<and> r \<noteq> self) [0..<length ?s1])"
    by (simp add: s1)
  then have "?s1 ! c \<in> (!) ?s1 ` set (filter (\<lambda>r. r \<noteq> c' \<and> r \<noteq> self) [0..<length ?s1])"
    by (rule imageI)
  then have "?s1 ! c \<in> set (tempItemSet ?s1 c' self candidate)"
    unfolding tempItemSet_def set_append set_map by (rule UnI1)
  with at show "(s ! c)\<lparr>item_x := x, item_y := y\<rparr> \<in> set (tempItemSet ?s1 c' self candidate)"
    by simp
qed

theorem push_relocates_in_order_witness:
  "handleCollisionsForPreviewItemWithPush
     (mounted [mkItem ''a'' 0 0 1 1, mkItem ''b'' 1 0 1 1, mkItem ''c'' 2 0 1 1] Push None None)
     \<lparr>new_x = Some 0, new_y = Some 0, new_w = Some 3, new_h = Some 1\<rparr>
   = mounted [mkItem ''a'' 0 0 3 1, mkItem ''b'' 3 0 1 1, mkItem ''c'' 4 0 1 1] Push None None \<and>
   collisionList [mkItem ''a'' 0 0 1 1, mkItem ''b'' 1 0 1 1, mkItem ''c'' 2 0 1 1] 0 (mkItem ''a'' 0 0 3 1)
     = [1, 2] \<and>
   relocateInOrder None None 0 (mkItem ''a'' 0 0 3 1) [1, 2]
       [mkItem ''a'' 0 0 1 1, mkItem ''b'' 1 0 1 1, mkItem ''c'' 2 0 1 1]
     = [mkItem ''a'' 0 0 1 1, mkItem ''b'' 3 0 1 1, mkItem ''c'' 4 0 1 1] \<and>
   mkItem ''b'' 3 0 1 1
     \<in> set (tempItemSet [mkItem ''a'' 0 0 1 1, mkItem ''b'' 3 0 1 1, mkItem ''c'' 2 0 1 1] 2 0
              (mkItem ''a'' 0 0 3 1))"
proof -
  let ?s = "[mkItem ''a'' 0 0 1 1, mkItem ''b'' 1 0 1 1, mkItem ''c'' 2 0 1 1]"
  let ?st = "mounted ?s Push None None"
  let ?na = "\<lparr>new_x = Some 0, new_y = Some 0, new_w = Some 3, new_h = Some 1\<rparr>"
  let ?cand = "mkItem ''a'' 0 0 3 1"
  let ?its = "tempItemSet ?s 1 0 ?cand"
  have d: "distinctIds (items ?st)" and reg: "registered ?st"
    by code_simp+
  have cand: "spread (previewItem ?st) ?na = ?cand"
    by (simp add: mounted_def spread_def mkItem_def)
  have st: "items ?st = ?s" "item ?st = 0" "maxCols ?st = None" "maxRows ?st = None"
    by (simp_all add: mounted_def)
  have cl: "collisionList ?s 0 ?cand = [1, 2]"
    by code_simp
  have rel: "relocateInOrder None None 0 ?cand [1, 2] ?s
      = [mkItem ''a'' 0 0 1 1, mkItem ''b'' 3 0 1 1, mkItem ''c'' 4 0 1 1]"
    by code_simp
  have ap: "applyPreview (?st\<lparr>items := [mkItem ''a'' 0 0 1 1, mkItem ''b'' 3 0 1 1, mkItem ''c'' 4 0 1 1],
                               previewItem := ?cand\<rparr>)
      = mounted [mkItem ''a'' 0 0 3 1, mkItem ''b'' 3 0 1 1, mkItem ''c'' 4 0 1 1] Push None None"
    by code_simp
  have slot: "getAvailablePosition (?s ! 1) ?its None None = Some (3, 0)"
    by code_simp
  have upd: "updateCollItemPositionWithPush None None 1 ?its ?s
      = [mkItem ''a'' 0 0 1 1, mkItem ''b'' 3 0 1 1, mkItem ''c'' 2 0 1 1]"
    by code_simp
  have moved: "(?s ! 1)\<lparr>item_x := 3, item_y := 0\<rparr> = mkItem ''b'' 3 0 1 1"
    by (simp add: mkItem_def)
  show ?thesis
    using push_relocates_in_order [OF d reg, where c = 1 and s = ?s and c' = 2 and self = 0
        and its = ?its and mc = None and mr = None and x = 3 and y = 0
        and newAttributes = ?na and candidate = ?cand]
      cand st cl rel ap slot upd moved
    by simp
qed

section \<open>Push mode: the no-overlap invariant\<close>

text \<open>
  C1 as stated fails, in both modes. Push mode: on a grid of three columns and one row,
  \<open>a\<close> is dragged onto the cell \<open>(1, 0)\<close> of the two cells wide \<open>b\<close>; no slot is left for
  \<open>b\<close>, it stays, and the committed step leaves \<open>a\<close> and \<open>b\<close> overlapping. Compress mode:
  \<open>p\<close> is dragged to the cell \<open>(0, 1)\<close>; the compaction pass that follows moves \<open>b\<close> to
  row 5 and \<open>c\<close> to row 8, where the four rows high \<open>b\<close> and \<open>c\<close> overlap. Both layouts
  were free of overlap before the step.
\<close>

theorem committed_step_leaves_overlap:
  "noOverlap [mkItem ''a'' 0 0 1 1, mkItem ''b'' 1 0 2 1] \<and>
   move (mounted [mkItem ''a'' 0 0 1 1, mkItem ''b'' 1 0 2 1] Push (Some 3) (Some 1)) (1, 0)
     = Inr (mounted [mkItem ''a'' 1 0 1 1, mkItem ''b'' 1 0 2 1] Push (Some 3) (Some 1)) \<and>
   \<not> noOverlap [mkItem ''a'' 1 0 1 1, mkItem ''b'' 1 0 2 1] \<and>
   noOverlap [mkItem ''p'' 1 4 1 1, mkItem ''b'' 0 1 1 4, mkItem ''c'' 0 5 1 2] \<and>
   move (mounted [mkItem ''p'' 1 4 1 1, mkItem ''b'' 0 1 1 4, mkItem ''c'' 0 5 1 2] Compress None None) (0, 1)
     = Inr (mounted [mkItem ''p'' 0 4 1 1, mkItem ''b'' 0 5 1 4, mkItem ''c'' 0 8 1 2] Compress None None) \<and>
   \<not> noOverlap [mkItem ''p'' 0 4 1 1, mkItem ''b'' 0 5 1 4, mkItem ''c'' 0 8 1 2]"
  unfolding noOverlap_list_all by code_simp

lemma push_step_invariant:
  assumes no: "noOverlap (items st)" and d: "distinctIds (items st)" and reg: "registered st"
    and slots: "slotsFound st newAttributes"
  shows "noOverlap (items (handleCollisionsForPreviewItemWithPush st newAttributes)) \<and>
         distinctIds (items (handleCollisionsForPreviewItemWithPush st newAttributes)) \<and>
         registered (handleCollisionsForPreviewItemWithPush st newAttributes)"
proof -
  let ?s = "items st" and ?self = "item st" and ?pv = "previewItem st"
  let ?cand = "spread (previewItem st) newAttributes"
  let ?cs = "pushCollItems ?s ?pv ?cand"
  let ?s' = "fold (pushCollItem (maxCols st) (maxRows st) ?pv ?cand) ?cs ?s"
  let ?own = "(?s' ! ?self)\<lparr>item_x := item_x ?cand, item_y := item_y ?cand,
                item_w := item_w ?cand, item_h := item_h ?cand\<rparr>"
  from slots have found: "searchesSucceed (maxCols st) (maxRows st) ?pv ?cand ?cs ?s"
    using searchesSucceed_unbounded [of ?pv ?cand ?cs ?s] by (auto simp: slotsFound_def)
  from reg have self: "?self < length ?s" and ids: "item_id (?s ! ?self) = item_id ?pv"
    by (simp_all add: registered_def)
  have cid: "item_id ?cand = item_id ?pv" by (rule item_id_spread)
  have cs: "?cs = collisionList ?s ?self ?cand"
    by (rule pushCollItems_eq_collisionList [OF d self ids cid])
  have range: "\<forall>c\<in>set ?cs. c < length ?s \<and> c \<noteq> ?self"
    by (simp add: cs set_collisionList)
  have apart: "othersApart ?s ?self"
    using no by (simp add: noOverlap_def othersApart_def)
  have clear: "\<forall>i<length ?s. i \<noteq> ?self \<and> i \<notin> set ?cs \<longrightarrow> \<not> overlaps ?cand (?s ! i)"
    by (auto simp: cs set_collisionList)
  from push_fold [OF d self ids cid range found apart clear]
  have apart': "othersApart ?s' ?self"
    and clear': "\<And>i. i < length ?s \<Longrightarrow> i \<noteq> ?self \<Longrightarrow> \<not> overlaps ?cand (?s' ! i)" by auto
  have len: "length ?s' = length ?s" by (rule length_fold_pushCollItem)
  have res: "items (handleCollisionsForPreviewItemWithPush st newAttributes) = ?s'[?self := ?own]"
    and pv': "previewItem (handleCollisionsForPreviewItemWithPush st newAttributes) = ?cand"
    and self': "item (handleCollisionsForPreviewItemWithPush st newAttributes) = ?self"
    by (simp_all add: handleCollisionsForPreviewItemWithPush_def applyPreview_def Let_def)
  have ownc: "coords ?own = coords ?cand" by (simp add: coords_def)
  have ownFree: "\<not> overlaps ?own (?s' ! k)" if "k < length ?s" "k \<noteq> ?self" for k
    using clear' [OF that] overlaps_coords_left [OF ownc, of "?s' ! k"] by simp
  have "noOverlap (?s'[?self := ?own])"
    unfolding noOverlap_def
  proof (intro allI impI)
    fix i j assume i: "i < length (?s'[?self := ?own])" and j: "j < length (?s'[?self := ?own])"
      and neq: "i \<noteq> j"
    from i j len have i': "i < length ?s" and j': "j < length ?s" by simp_all
    show "\<not> overlaps (?s'[?self := ?own] ! i) (?s'[?self := ?own] ! j)"
    proof (cases "i = ?self")
      case True
      with neq have js: "j \<noteq> ?self" by simp
      have "?s'[?self := ?own] ! i = ?own" using True self len by simp
      moreover have "?s'[?self := ?own] ! j = ?s' ! j" using js by simp
      ultimately show ?thesis using ownFree [OF j' js] by simp
    next
      case iself: False
      then have ati: "?s'[?self := ?own] ! i = ?s' ! i" by simp
      show ?thesis
      proof (cases "j = ?self")
        case True
        have "?s'[?self := ?own] ! j = ?own" using True self len by simp
        with ati show ?thesis
          using ownFree [OF i' iself] overlaps_sym [of "?s' ! i" ?own] by simp
      next
        case False
        then have "?s'[?self := ?own] ! j = ?s' ! j" by simp
        with ati show ?thesis
          using apart' iself False neq i' j' len by (simp add: othersApart_def)
      qed
    qed
  qed
  moreover have "distinctIds (?s'[?self := ?own])"
    using d by (simp add: distinctIds_def map_item_id_applied map_item_id_fold_pushCollItem)
  moreover have "item_id ?own = item_id ?cand"
    using item_id_fold_pushCollItem [OF self] ids cid by simp
  then have "registered (handleCollisionsForPreviewItemWithPush st newAttributes)"
    using self len by (simp add: registered_def res pv' self')
  ultimately show ?thesis by (simp add: res)
qed

text \<open>
  C1 as amended. In push mode, starting from a store with pairwise different ids whose
  items are free of overlap, after each committed step of a sequence of move and resize
  samples every pair of distinct items is free of overlap, provided the free-slot
  searches of the steps all find a slot (as they always do on a grid without column and
  row bound).
\<close>

theorem push_steps_preserve_noOverlap:
  assumes "noOverlap (items st)" and "distinctIds (items st)" and "registered st"
    and "allSlotsFound st samples" and "k \<le> length samples"
  shows "noOverlap (items (pushSteps st (take k samples)))"
  using assms
proof (induction samples arbitrary: st k)
  case Nil
  then show ?case by simp
next
  case (Cons na rest)
  show ?case
  proof (cases k)
    case 0
    with Cons.prems show ?thesis by simp
  next
    case (Suc k')
    from Cons.prems have slots: "slotsFound st na"
      and later: "allSlotsFound (handleCollisionsForPreviewItemWithPush st na) rest" by simp_all
    from push_step_invariant [OF Cons.prems(1-3) slots]
    have "noOverlap (items (handleCollisionsForPreviewItemWithPush st na))"
      and "distinctIds (items (handleCollisionsForPreviewItemWithPush st na))"
      and "registered (handleCollisionsForPreviewItemWithPush st na)" by simp_all
    from Cons.IH [OF this later, of k'] Cons.prems(5) Suc show ?thesis by simp
  qed
qed

theorem push_steps_preserve_noOverlap_witness:
  "noOverlap [mkItem ''a'' 0 0 2 1, mkItem ''b'' 2 0 2 1] \<and>
   allSlotsFound (mounted [mkItem ''a'' 0 0 2 1, mkItem ''b'' 2 0 2 1] Push (Some 6) (Some 1))
     [\<lparr>new_x = Some 1, new_y = Some 0, new_w = None, new_h = None\<rparr>,
      \<lparr>new_x = Some 2, new_y = Some 0, new_w = Some 3, new_h = Some 1\<rparr>] \<and>
   items (pushSteps (mounted [mkItem ''a'' 0 0 2 1, mkItem ''b'' 2 0 2 1] Push (Some 6) (Some 1))
     [\<lparr>new_x = Some 1, new_y = Some 0, new_w = None, new_h = None\<rparr>])
     = [mkItem ''a'' 1 0 2 1, mkItem ''b'' 3 0 2 1] \<and>
   items (pushSteps (mounted [mkItem ''a'' 0 0 2 1, mkItem ''b'' 2 0 2 1] Push (Some 6) (Some 1))
     [\<lparr>new_x = Some 1, new_y = Some 0, new_w = None, new_h = None\<rparr>,
      \<lparr>new_x = Some 2, new_y = Some 0, new_w = Some 3, new_h = Some 1\<rparr>])
     = [mkItem ''a'' 2 0 3 1, mkItem ''b'' 0 0 2 1] \<and>
   noOverlap [mkItem ''a'' 1 0 2 1, mkItem ''b'' 3 0 2 1] \<and>
   noOverlap [mkItem ''a'' 2 0 3 1, mkItem ''b'' 0 0 2 1]"
proof -
  let ?st = "mounted [mkItem ''a'' 0 0 2 1, mkItem ''b'' 2 0 2 1] Push (Some 6) (Some 1)"
  let ?samples = "[\<lparr>new_x = Some 1, new_y = Some 0, new_w = None, new_h = None\<rparr>,
      \<lparr>new_x = Some 2, new_y = Some 0, new_w = Some 3, new_h = Some 1\<rparr>]"
  have st: "items ?st = [mkItem ''a'' 0 0 2 1, mkItem ''b'' 2 0 2 1]"
    by (simp add: mounted_def)
  have no: "noOverlap (items ?st)"
    unfolding noOverlap_list_all by code_simp
  have d: "distinctIds (items ?st)" and reg: "registered ?st"
    by code_simp+
  have slots: "allSlotsFound ?st ?samples"
    by code_simp
  have one: "items (pushSteps ?st (take 1 ?samples)) = [mkItem ''a'' 1 0 2 1, mkItem ''b'' 3 0 2 1]"
    by code_simp
  have two: "items (pushSteps ?st (take 2 ?samples)) = [mkItem ''a'' 2 0 3 1, mkItem ''b'' 0 0 2 1]"
    by code_simp
  have k1: "1 \<le> length ?samples" and k2: "2 \<le> length ?samples"
    by simp_all
  have "noOverlap (items (pushSteps ?st (take 1 ?samples)))"
    by (rule push_steps_preserve_noOverlap [OF no d reg slots k1])
  moreover have "noOverlap (items (pushSteps ?st (take 2 ?samples)))"
    by (rule push_steps_preserve_noOverlap [OF no d reg slots k2])
  ultimately have "noOverlap [mkItem ''a'' 1 0 2 1, mkItem ''b'' 3 0 2 1]"
    and "noOverlap [mkItem ''a'' 2 0 3 1, mkItem ''b'' 0 0 2 1]"
    unfolding one two by simp_all
  moreover note no [unfolded st] slots one [simplified] two [simplified]
  ultimately show ?thesis by simp
qed


section \<open>Compress mode: the probe of the move-time resolution\<close>

lemma fold_visit_none:
  "\<forall>c\<in>set cs. \<not> belowCentre y pv (s ! c) \<Longrightarrow>
     fold (visitSortItem y pv excl srt) cs (moved, newY, s) = (moved, newY, s)"
  by (induction cs) simp_all

lemma probeRows_collision_none_below:
  assumes "0 \<le> newY"
    and "getCollisions s (pv\<lparr>item_x := x, item_y := newY\<rparr>) (gridItems s) \<noteq> []"
    and "\<forall>c\<in>set (getCollisions s (pv\<lparr>item_x := x, item_y := newY\<rparr>) (gridItems s)). \<not> belowCentre y pv (s ! c)"
  shows "probeRows s pv x y newY = (item_y pv, s)"
proof -
  let ?cs = "getCollisions s (pv\<lparr>item_x := x, item_y := newY\<rparr>) (gridItems s)"
  let ?sorted = "sort_key (\<lambda>r. - item_y (s ! r)) ?cs"
  have "\<forall>c\<in>set ?sorted. \<not> belowCentre y pv (s ! c)" using assms(3) by simp
  from fold_visit_none [OF this]
  have "fold (visitSortItem y pv (filter (\<lambda>r. item_id (s ! r) \<noteq> item_id pv) (gridItems s)) ?sorted)
          ?sorted (False, newY, s) = (False, newY, s)" .
  then show ?thesis
    using assms(1,2) by (subst probeRows.simps) (simp add: Let_def)
qed

lemma probeRows_free_row:
  assumes "0 \<le> newY" and "getCollisions s (pv\<lparr>item_x := x, item_y := newY\<rparr>) (gridItems s) = []"
  shows "probeRows s pv x y newY = probeRows s pv x y (newY - 1)"
  using assms by (subst probeRows.simps) (simp add: Let_def)

lemma probeRows_skip_free_rows:
  assumes "r \<le> newY" and "0 \<le> r + 1"
    and "\<forall>k. r < k \<and> k \<le> newY \<longrightarrow> getCollisions s (pv\<lparr>item_x := x, item_y := k\<rparr>) (gridItems s) = []"
  shows "probeRows s pv x y newY = probeRows s pv x y r"
  using assms
proof (induction "nat (newY - r)" arbitrary: newY)
  case 0
  then show ?case by simp
next
  case (Suc n)
  then have gt: "r < newY" and n: "n = nat ((newY - 1) - r)" by auto
  with Suc.prems have free: "getCollisions s (pv\<lparr>item_x := x, item_y := newY\<rparr>) (gridItems s) = []"
    and pos: "0 \<le> newY" by auto
  have "probeRows s pv x y (newY - 1) = probeRows s pv x y r"
    using Suc.hyps(1) [OF n] gt Suc.prems by auto
  with probeRows_free_row [OF pos free] show ?case by simp
qed

lemma probeRows_negative: "newY < 0 \<Longrightarrow> probeRows s pv x y newY = (newY, s)"
  by (subst probeRows.simps) simp

lemma previewItem_applyPreview: "previewItem (applyPreview st) = previewItem st"
  by (simp add: applyPreview_def)

lemma previewItem_compressItems: "previewItem (compressItems st) = previewItem st"
  by (simp add: compressItems_def Let_def)

lemma previewItem_compress_move:
  "previewItem (movePreviewWithCollisionsWithCompress st x y) =
     (previewItem st)\<lparr>item_x := x,
        item_y := (if fst (probeRows (items st) (previewItem st) x y y) < 0 \<or> y = 0 then 0
                   else fst (probeRows (items st) (previewItem st) x y y))\<rparr>"
proof (cases "probeRows (items st) (previewItem st) x y y")
  case (Pair probed s')
  then show ?thesis
    unfolding movePreviewWithCollisionsWithCompress_def Let_def
    by (simp add: previewItem_applyPreview previewItem_compressItems)
qed

text \<open>
  C7 as stated fails. \<open>p\<close> sits at row 8 and is dragged to row 3 of the column of the four
  rows high \<open>b\<close>, whose centre lies below the centre of the candidate. Row 3 collides and
  no collider passes the below-centre test, yet the probe does not go on to row 2 (from
  where it would run down to \<open>-1\<close> and settle at row 0): it stops, the candidate takes the
  row 8 of the preview again and the state is left as it was.
\<close>

theorem compress_probe_does_not_continue:
  "getCollisions [mkItem ''p'' 0 8 1 1, mkItem ''b'' 0 3 1 4] (mkItem ''p'' 0 3 1 1)
      (gridItems [mkItem ''p'' 0 8 1 1, mkItem ''b'' 0 3 1 4]) = [1] \<and>
   \<not> belowCentre 3 (mkItem ''p'' 0 8 1 1) (mkItem ''b'' 0 3 1 4) \<and>
   probeRows [mkItem ''p'' 0 8 1 1, mkItem ''b'' 0 3 1 4] (mkItem ''p'' 0 8 1 1) 0 3 3
     = (8, [mkItem ''p'' 0 8 1 1, mkItem ''b'' 0 3 1 4]) \<and>
   probeRows [mkItem ''p'' 0 8 1 1, mkItem ''b'' 0 3 1 4] (mkItem ''p'' 0 8 1 1) 0 3 2
     = (- 1, [mkItem ''p'' 0 8 1 1, mkItem ''b'' 0 3 1 4]) \<and>
   move (mounted [mkItem ''p'' 0 8 1 1, mkItem ''b'' 0 3 1 4] Compress None None) (0, 3)
     = Inr (mounted [mkItem ''p'' 0 8 1 1, mkItem ''b'' 0 3 1 4] Compress None None) \<and>
   item_y (previewItem (mounted [mkItem ''p'' 0 8 1 1, mkItem ''b'' 0 3 1 4] Compress None None)) = 8"
  by code_simp

text \<open>
  C7 as amended. The probe row is decremented only while the probed row has no
  collision. When the first row with collisions has no colliding item that passes the
  below-centre test, probing stops and the candidate keeps the row of the preview (row 0
  when the requested row is 0 or the preview's row is negative); when no row from the
  requested one down to 0 has a collision, the candidate settles at row 0.
\<close>

theorem compress_probe_stops_at_collision:
  "(0 \<le> r \<and> r \<le> y \<and>
      (\<forall>k. r < k \<and> k \<le> y \<longrightarrow>
         getCollisions (items st) ((previewItem st)\<lparr>item_x := x, item_y := k\<rparr>) (gridItems (items st)) = []) \<and>
      getCollisions (items st) ((previewItem st)\<lparr>item_x := x, item_y := r\<rparr>) (gridItems (items st)) \<noteq> [] \<and>
      (\<forall>c\<in>set (getCollisions (items st) ((previewItem st)\<lparr>item_x := x, item_y := r\<rparr>) (gridItems (items st))).
         \<not> belowCentre y (previewItem st) (items st ! c)) \<longrightarrow>
      item_y (previewItem (movePreviewWithCollisionsWithCompress st x y))
        = (if item_y (previewItem st) < 0 \<or> y = 0 then 0 else item_y (previewItem st))) \<and>
   ((\<forall>k. 0 \<le> k \<and> k \<le> y \<longrightarrow>
         getCollisions (items st) ((previewItem st)\<lparr>item_x := x, item_y := k\<rparr>) (gridItems (items st)) = []) \<longrightarrow>
      item_y (previewItem (movePreviewWithCollisionsWithCompress st x y)) = 0)"
proof (intro conjI impI)
  let ?s = "items st" and ?pv = "previewItem st"
  assume h: "0 \<le> r \<and> r \<le> y \<and>
      (\<forall>k. r < k \<and> k \<le> y \<longrightarrow> getCollisions ?s (?pv\<lparr>item_x := x, item_y := k\<rparr>) (gridItems ?s) = []) \<and>
      getCollisions ?s (?pv\<lparr>item_x := x, item_y := r\<rparr>) (gridItems ?s) \<noteq> [] \<and>
      (\<forall>c\<in>set (getCollisions ?s (?pv\<lparr>item_x := x, item_y := r\<rparr>) (gridItems ?s)).
         \<not> belowCentre y ?pv (?s ! c))"
  then have "probeRows ?s ?pv x y y = probeRows ?s ?pv x y r"
    by (intro probeRows_skip_free_rows) auto
  also have "\<dots> = (item_y ?pv, ?s)"
    using h by (intro probeRows_collision_none_below) auto
  finally show "item_y (previewItem (movePreviewWithCollisionsWithCompress st x y))
        = (if item_y ?pv < 0 \<or> y = 0 then 0 else item_y ?pv)"
    by (simp add: previewItem_compress_move)
next
  let ?s = "items st" and ?pv = "previewItem st"
  assume h: "\<forall>k. 0 \<le> k \<and> k \<le> y \<longrightarrow> getCollisions ?s (?pv\<lparr>item_x := x, item_y := k\<rparr>) (gridItems ?s) = []"
  show "item_y (previewItem (movePreviewWithCollisionsWithCompress st x y)) = 0"
  proof (cases "y < 0")
    case True
    then show ?thesis by (simp add: previewItem_compress_move probeRows_negative)
  next
    case False
    then have "probeRows ?s ?pv x y y = probeRows ?s ?pv x y (- 1)"
      using h by (intro probeRows_skip_free_rows) auto
    then show ?thesis by (simp add: previewItem_compress_move probeRows_negative)
  qed
qed

theorem compress_probe_stops_at_collision_witness:
  "item_y (previewItem (movePreviewWithCollisionsWithCompress
      (mounted [mkItem ''p'' 0 8 1 1, mkItem ''b'' 0 3 1 4] Compress None None) 0 3)) = 8 \<and>
   item_y (previewItem (movePreviewWithCollisionsWithCompress
      (mounted [mkItem ''p'' 0 8 1 1, mkItem ''b'' 0 3 1 4] Compress None None) 1 3)) = 0"
proof -
  let ?s = "[mkItem ''p'' 0 8 1 1, mkItem ''b'' 0 3 1 4]"
  let ?st = "mounted ?s Compress None None"
  have st: "items ?st = ?s" "previewItem ?st = mkItem ''p'' 0 8 1 1"
    by (simp_all add: mounted_def)
  have hit: "getCollisions ?s ((mkItem ''p'' 0 8 1 1)\<lparr>item_x := 0, item_y := 3\<rparr>) (gridItems ?s) = [1]"
    by code_simp
  have above: "\<not> belowCentre 3 (mkItem ''p'' 0 8 1 1) (?s ! 1)"
    by code_simp
  have free: "getCollisions ?s ((mkItem ''p'' 0 8 1 1)\<lparr>item_x := 1, item_y := k\<rparr>) (gridItems ?s) = []" for k
    by (simp add: getCollisions_def gridItems_def collides_def overlaps_def mkItem_def)
  have pa: "0 \<le> (3::int) \<and> (3::int) \<le> 3 \<and>
      (\<forall>k. 3 < k \<and> k \<le> 3 \<longrightarrow>
         getCollisions (items ?st) ((previewItem ?st)\<lparr>item_x := 0, item_y := k\<rparr>) (gridItems (items ?st)) = []) \<and>
      getCollisions (items ?st) ((previewItem ?st)\<lparr>item_x := 0, item_y := 3\<rparr>) (gridItems (items ?st)) \<noteq> [] \<and>
      (\<forall>c\<in>set (getCollisions (items ?st) ((previewItem ?st)\<lparr>item_x := 0, item_y := 3\<rparr>) (gridItems (items ?st))).
         \<not> belowCentre 3 (previewItem ?st) (items ?st ! c))"
    unfolding st using hit above by auto
  have pb: "\<forall>k. 0 \<le> k \<and> k \<le> 3 \<longrightarrow>
         getCollisions (items ?st) ((previewItem ?st)\<lparr>item_x := 1, item_y := k\<rparr>) (gridItems (items ?st)) = []"
    unfolding st using free by simp
  have pvy: "item_y (previewItem ?st) = 8"
    by (simp add: mounted_def mkItem_def)
  have a: "item_y (previewItem (movePreviewWithCollisionsWithCompress ?st 0 3)) = 8"
    using compress_probe_stops_at_collision [of 3 3 ?st 0, THEN conjunct1, THEN mp, OF pa] pvy
    by simp
  have b: "item_y (previewItem (movePreviewWithCollisionsWithCompress ?st 1 3)) = 0"
    using compress_probe_stops_at_collision [of 3 3 ?st 1, THEN conjunct2, THEN mp, OF pb] .
  from a b show ?thesis by simp
qed

section \<open>Compress mode: rows stay non-negative\<close>

lemma list_all_update: "list_all P s \<Longrightarrow> P v \<Longrightarrow> list_all P (s[r := v])"
  using set_update_subset_insert [of s r v] by (auto simp: list_all_iff)

lemma list_all_nth: "list_all P s \<Longrightarrow> r < length s \<Longrightarrow> P (s ! r)"
  by (simp add: list_all_iff)

lemma list_all_update_in_range:
  "list_all P s \<Longrightarrow> (r < length s \<Longrightarrow> P v) \<Longrightarrow> list_all P (s[r := v])"
  by (cases "r < length s") (simp_all add: list_all_update list_update_beyond)

lemma shiftItemUp_rows: "rowsNonneg s \<Longrightarrow> rowsNonneg (shiftItemUp pv excl r s)"
  by (simp add: shiftItemUp_def Let_def rowsNonneg_def list_all_update)

lemma shiftItemUp_heights: "heightsPositive s \<Longrightarrow> heightsPositive (shiftItemUp pv excl r s)"
  unfolding shiftItemUp_def Let_def heightsPositive_def
  by (auto intro!: list_all_update_in_range dest: list_all_nth)

lemma fold_shiftItemUp_rows:
  "rowsNonneg s \<Longrightarrow> rowsNonneg (fold (shiftItemUp pv excl) cs s)"
  by (induction cs arbitrary: s) (simp_all add: shiftItemUp_rows)

lemma fold_shiftItemUp_heights:
  "heightsPositive s \<Longrightarrow> heightsPositive (fold (shiftItemUp pv excl) cs s)"
  by (induction cs arbitrary: s) (simp_all add: shiftItemUp_heights)

lemma fold_visitSortItem_rows:
  "rowsNonneg (snd (snd t)) \<Longrightarrow>
     rowsNonneg (snd (snd (fold (visitSortItem y pv excl srt) cs t)))"
proof (induction cs arbitrary: t)
  case Nil
  then show ?case by simp
next
  case (Cons c cs)
  obtain moved newY s where t: "t = (moved, newY, s)" by (cases t)
  with Cons.prems have "rowsNonneg (snd (snd (visitSortItem y pv excl srt c t)))"
    by (simp add: fold_shiftItemUp_rows)
  from Cons.IH [OF this] show ?case by simp
qed

lemma fold_visitSortItem_heights:
  "heightsPositive (snd (snd t)) \<Longrightarrow>
     heightsPositive (snd (snd (fold (visitSortItem y pv excl srt) cs t)))"
proof (induction cs arbitrary: t)
  case Nil
  then show ?case by simp
next
  case (Cons c cs)
  obtain moved newY s where t: "t = (moved, newY, s)" by (cases t)
  with Cons.prems have "heightsPositive (snd (snd (visitSortItem y pv excl srt c t)))"
    by (simp add: fold_shiftItemUp_heights)
  from Cons.IH [OF this] show ?case by simp
qed

lemma probeRows_store:
  "snd (probeRows s pv x y newY) = s \<or>
   (\<exists>cs srt n. snd (probeRows s pv x y newY) =
      snd (snd (fold (visitSortItem y pv (filter (\<lambda>r. item_id (s ! r) \<noteq> item_id pv) (gridItems s)) srt)
                  cs (False, n, s))))"
proof (induction s pv x y newY rule: probeRows.induct)
  case (1 s pv x y newY)
  show ?case
  proof (cases "0 \<le> newY")
    case False
    then show ?thesis by (subst probeRows.simps) simp
  next
    case pos: True
    let ?cs = "getCollisions s (pv\<lparr>item_x := x, item_y := newY\<rparr>) (gridItems s)"
    show ?thesis
    proof (cases "?cs = []")
      case True
      with pos "1.IH" [OF pos refl] show ?thesis
        by (subst probeRows.simps, subst (2) probeRows.simps) (simp add: Let_def)
    next
      case False
      let ?srt = "sort_key (\<lambda>r. - item_y (s ! r)) ?cs"
      let ?excl = "filter (\<lambda>r. item_id (s ! r) \<noteq> item_id pv) (gridItems s)"
      have "snd (probeRows s pv x y newY) =
              snd (snd (fold (visitSortItem y pv ?excl ?srt) ?srt (False, newY, s)))"
        using pos False by (subst probeRows.simps) (simp add: Let_def split: prod.splits)
      then show ?thesis by blast
    qed
  qed
qed

lemma probeRows_rows: "rowsNonneg s \<Longrightarrow> rowsNonneg (snd (probeRows s pv x y newY))"
  using probeRows_store [of s pv x y newY]
  by (auto simp: fold_visitSortItem_rows)

lemma probeRows_heights: "heightsPositive s \<Longrightarrow> heightsPositive (snd (probeRows s pv x y newY))"
  using probeRows_store [of s pv x y newY]
  by (auto simp: fold_visitSortItem_heights)

lemma scanRows_ge: "- 1 \<le> n \<Longrightarrow> - 1 \<le> scanRows c a n"
proof (induction c a n rule: scanRows.induct)
  case (1 currentItem acc newY)
  show ?case
  proof (cases "0 \<le> newY \<and> \<not> hasCollisions (currentItem\<lparr>item_y := newY\<rparr>) acc")
    case True
    then have "scanRows currentItem acc newY = scanRows currentItem acc (newY - 1)"
      by (subst scanRows.simps) simp
    with "1.IH" True show ?thesis by simp
  next
    case False
    then have "scanRows currentItem acc newY = newY"
      by (subst scanRows.simps) auto
    with "1.prems" show ?thesis by simp
  qed
qed

lemma compressStep_rows:
  assumes "rowsNonneg s" "heightsPositive s" "1 \<le> item_h pv"
  shows "rowsNonneg (fst (compressStep pv r (s, acc))) \<and> heightsPositive (fst (compressStep pv r (s, acc)))"
proof (cases "r < length s")
  case False
  then have "s[r := v] = s" for v by (simp add: list_update_beyond)
  then show ?thesis using assms by (simp add: Let_def)
next
  case True
  let ?cur = "s ! r"
  from assms True have cur: "0 \<le> item_y ?cur" "1 \<le> item_h ?cur"
    by (auto simp: rowsNonneg_def heightsPositive_def dest: list_all_nth)
  have up1: "0 \<le> scanRows ?cur (pv # map ((!) s) acc) (item_y ?cur + item_h pv + 1) + 1"
    using scanRows_ge [of "item_y ?cur + item_h pv + 1" ?cur "pv # map ((!) s) acc"] cur assms(3)
    by simp
  have up2: "0 \<le> scanRows ?cur (pv # map ((!) s) acc) (item_y pv + item_h ?cur + 1) + 1"
    if "item_y ?cur < item_y pv"
    using scanRows_ge [of "item_y pv + item_h ?cur + 1" ?cur "pv # map ((!) s) acc"] cur that
    by simp
  have rows: "rowsNonneg (s[r := ?cur\<lparr>item_y := v\<rparr>])" if "0 \<le> v" for v
    using assms(1) that by (simp add: rowsNonneg_def list_all_update)
  have heights: "heightsPositive (s[r := ?cur\<lparr>item_y := v\<rparr>])" for v
    using assms(2) cur(2) by (simp add: heightsPositive_def list_all_update)
  show ?thesis
    using rows [OF up1] rows [OF up2] rows heights assms(1,2) by (simp add: Let_def)
qed

lemma fold_compressStep_rows:
  assumes "rowsNonneg (fst t)" "heightsPositive (fst t)" "1 \<le> item_h pv"
  shows "rowsNonneg (fst (fold (compressStep pv) rs t))"
  using assms(1,2)
proof (induction rs arbitrary: t)
  case Nil
  then show ?case by simp
next
  case (Cons r rs)
  obtain s acc where t: "t = (s, acc)" by (cases t)
  from compressStep_rows [of s pv r acc] Cons.prems assms(3) t
  have "rowsNonneg (fst (compressStep pv r t))" "heightsPositive (fst (compressStep pv r t))"
    by simp_all
  from Cons.IH [OF this] show ?case by simp
qed

lemma compressItems_rows:
  "rowsNonneg (items st) \<Longrightarrow> heightsPositive (items st) \<Longrightarrow> 1 \<le> item_h (previewItem st) \<Longrightarrow>
     rowsNonneg (items (compressItems st))"
  by (simp add: compressItems_def Let_def fold_compressStep_rows)

lemma items_compress_move:
  "items (movePreviewWithCollisionsWithCompress st x y) =
     (let pv = previewItem st;
          probed = fst (probeRows (items st) pv x y y);
          s' = snd (probeRows (items st) pv x y y);
          newY = (if probed < 0 \<or> y = 0 then 0 else probed);
          st' = st\<lparr>items := s', previewItem := pv\<lparr>item_x := x, item_y := newY\<rparr>\<rparr>
      in if x \<noteq> item_x pv \<or> newY \<noteq> item_y pv then items (applyPreview (compressItems st')) else s')"
  by (simp add: movePreviewWithCollisionsWithCompress_def Let_def case_prod_beta)

lemma if_both: "P a \<Longrightarrow> P b \<Longrightarrow> P (if c then a else b)"
  by simp

text \<open>
  The move-time path. On a store whose items lie in rows \<open>y \<ge> 0\<close> and are at least one
  row high, as is the preview, the sibling shift of the move-time resolution (guarded by
  \<^verbatim>\<open>item.y - previewItem.h >= 0\<close>, line 313), the compaction pass and the whole move-time
  resolution leave every item in a row \<open>y \<ge> 0\<close>.
\<close>

lemma compress_keeps_rows_nonneg:
  assumes "rowsNonneg (items st)" and "heightsPositive (items st)" and "1 \<le> item_h (previewItem st)"
  shows "rowsNonneg (snd (probeRows (items st) (previewItem st) x y newY)) \<and>
         rowsNonneg (items (compressItems st)) \<and>
         rowsNonneg (items (movePreviewWithCollisionsWithCompress st x y))"
proof (intro conjI)
  show "rowsNonneg (snd (probeRows (items st) (previewItem st) x y newY))"
    by (rule probeRows_rows [OF assms(1)])
  show "rowsNonneg (items (compressItems st))"
    by (rule compressItems_rows [OF assms])
  let ?pv = "previewItem st"
  let ?probed = "fst (probeRows (items st) ?pv x y y)"
  let ?s' = "snd (probeRows (items st) ?pv x y y)"
  let ?newY = "if ?probed < 0 \<or> y = 0 then 0 else ?probed"
  let ?st' = "st\<lparr>items := ?s', previewItem := ?pv\<lparr>item_x := x, item_y := ?newY\<rparr>\<rparr>"
  have s': "rowsNonneg ?s'" "heightsPositive ?s'"
    using assms by (simp_all add: probeRows_rows probeRows_heights)
  then have "rowsNonneg (items (compressItems ?st'))"
    using assms(3) by (intro compressItems_rows) simp_all
  moreover have "0 \<le> ?newY" by simp
  ultimately have "rowsNonneg (items (applyPreview (compressItems ?st')))"
    unfolding applyPreview_def rowsNonneg_def
    by (simp add: list_all_update previewItem_compressItems del: if_split)
  then show "rowsNonneg (items (movePreviewWithCollisionsWithCompress st x y))"
    unfolding items_compress_move Let_def using s'(1) by (rule if_both)
qed

lemma compress_keeps_rows_nonneg_example:
  "rowsNonneg [mkItem ''p'' 1 0 1 1, mkItem ''b'' 0 0 1 1, mkItem ''c'' 0 2 1 2] \<and>
   heightsPositive [mkItem ''p'' 1 0 1 1, mkItem ''b'' 0 0 1 1, mkItem ''c'' 0 2 1 2] \<and>
   snd (probeRows [mkItem ''p'' 1 0 1 1, mkItem ''b'' 0 0 1 1, mkItem ''c'' 0 2 1 2]
          (mkItem ''p'' 1 0 1 1) 0 3 3)
     = [mkItem ''p'' 1 0 1 1, mkItem ''b'' 0 0 1 1, mkItem ''c'' 0 1 1 2] \<and>
   rowsNonneg (snd (probeRows [mkItem ''p'' 1 0 1 1, mkItem ''b'' 0 0 1 1, mkItem ''c'' 0 2 1 2]
                      (mkItem ''p'' 1 0 1 1) 0 3 3)) \<and>
   rowsNonneg (items (compressItems
      (mounted [mkItem ''p'' 1 0 1 1, mkItem ''b'' 0 0 1 1, mkItem ''c'' 0 2 1 2] Compress None None))) \<and>
   rowsNonneg (items (movePreviewWithCollisionsWithCompress
      (mounted [mkItem ''p'' 1 0 1 1, mkItem ''b'' 0 0 1 1, mkItem ''c'' 0 2 1 2] Compress None None) 0 3))"
proof -
  let ?s = "[mkItem ''p'' 1 0 1 1, mkItem ''b'' 0 0 1 1, mkItem ''c'' 0 2 1 2]"
  let ?st = "mounted ?s Compress None None"
  have st: "items ?st = ?s" "previewItem ?st = mkItem ''p'' 1 0 1 1"
    by (simp_all add: mounted_def)
  have rows: "rowsNonneg (items ?st)" and heights: "heightsPositive (items ?st)"
    and pv: "1 \<le> item_h (previewItem ?st)"
    by code_simp+
  have shifted: "snd (probeRows ?s (mkItem ''p'' 1 0 1 1) 0 3 3)
      = [mkItem ''p'' 1 0 1 1, mkItem ''b'' 0 0 1 1, mkItem ''c'' 0 1 1 2]"
    by code_simp
  from compress_keeps_rows_nonneg [OF rows heights pv, of 0 3 3] rows heights shifted
  show ?thesis unfolding st by simp
qed

text \<open>
  C9 fails on the code. The resize-time path of compress mode shifts every item that
  collides with the column under the resized item by the height delta,
  \<^verbatim>\<open>item.y += hGap\<close> (line 585), with no guard of the kind the move-time shift has. In
  the overlap-free layout \<open>p (0, 0)\<close> one column wide and five rows high, \<open>b (1, 0)\<close>, all
  rows non-negative, \<open>p\<close> is resized by its south-east handle to two columns and four
  rows: \<open>hGap\<close> is \<open>-1\<close>, \<open>b\<close> collides with the widened column and is moved to row \<open>-1\<close>,
  where the compaction pass leaves it.
\<close>

theorem compress_resize_drives_row_negative:
  "rowsNonneg [mkItem ''p'' 0 0 1 5, mkItem ''b'' 1 0 1 1] \<and>
   heightsPositive [mkItem ''p'' 0 0 1 5, mkItem ''b'' 1 0 1 1] \<and>
   \<not> overlaps (mkItem ''p'' 0 0 1 5) (mkItem ''b'' 1 0 1 1) \<and>
   resize (mounted [mkItem ''p'' 0 0 1 5, mkItem ''b'' 1 0 1 1] Compress None None)
      \<lparr>snappedW = 2, snappedH = 4, snappedPosition = (0, 0), previewPosition = (0, 0)\<rparr>
     = Inr (mounted [mkItem ''p'' 0 0 2 4, mkItem ''b'' 1 (- 1) 1 1] Compress None None) \<and>
   \<not> rowsNonneg [mkItem ''p'' 0 0 2 4, mkItem ''b'' 1 (- 1) 1 1]"
  by code_simp

section \<open>Compress mode: the compaction pass run twice\<close>

text \<open>
  C8 fails on the code. From the overlap-free layout \<open>p (1, 4)\<close>, \<open>b (0, 1)\<close> four rows
  high, \<open>c (0, 5)\<close> two rows high, \<open>p\<close> is dragged to the cell \<open>(0, 1)\<close> and the move runs the
  compaction pass with the candidate at \<open>(0, 4)\<close>. The first pass moves \<open>b\<close> to row 5 and
  puts \<open>c\<close> at row 8, its start row 7 being taken and the row above it never checked, so
  \<open>b\<close> and \<open>c\<close> overlap; the second pass moves \<open>c\<close> again, to row 9.
\<close>

theorem compaction_not_idempotent:
  "compressItems ((mounted [mkItem ''p'' 1 4 1 1, mkItem ''b'' 0 1 1 4, mkItem ''c'' 0 5 1 2] Compress None None)
                    \<lparr>previewItem := mkItem ''p'' 0 4 1 1\<rparr>)
     = (mounted [mkItem ''p'' 1 4 1 1, mkItem ''b'' 0 5 1 4, mkItem ''c'' 0 8 1 2] Compress None None)
         \<lparr>previewItem := mkItem ''p'' 0 4 1 1\<rparr> \<and>
   compressItems ((mounted [mkItem ''p'' 1 4 1 1, mkItem ''b'' 0 5 1 4, mkItem ''c'' 0 8 1 2] Compress None None)
                    \<lparr>previewItem := mkItem ''p'' 0 4 1 1\<rparr>)
     = (mounted [mkItem ''p'' 1 4 1 1, mkItem ''b'' 0 5 1 4, mkItem ''c'' 0 9 1 2] Compress None None)
         \<lparr>previewItem := mkItem ''p'' 0 4 1 1\<rparr> \<and>
   overlaps (mkItem ''b'' 0 5 1 4) (mkItem ''c'' 0 8 1 2) \<and>
   move (mounted [mkItem ''p'' 1 4 1 1, mkItem ''b'' 0 1 1 4, mkItem ''c'' 0 5 1 2] Compress None None) (0, 1)
     = Inr (mounted [mkItem ''p'' 0 4 1 1, mkItem ''b'' 0 5 1 4, mkItem ''c'' 0 8 1 2] Compress None None) \<and>
   compressItems (mounted [mkItem ''p'' 0 4 1 1, mkItem ''b'' 0 5 1 4, mkItem ''c'' 0 8 1 2] Compress None None)
     = mounted [mkItem ''p'' 0 4 1 1, mkItem ''b'' 0 5 1 4, mkItem ''c'' 0 9 1 2] Compress None None"
  by code_simp

end
